theory Spec2Isabelle
  imports Main "HOL-Library.AList"
begin

section \<open>Python values, dicts and exceptions\<close>

text \<open>
  The program works on the dicts that \<^verbatim>\<open>csv.DictReader\<close> yields and nests them into a
  tree that is finally encoded as JSON. A cell of a CSV row is a string, or \<^verbatim>\<open>None\<close>
  where the row is shorter than the header. Rows longer than the header (which the reader
  files under the key \<^verbatim>\<open>None\<close>) are outside this model: field names are strings.
  A dict is an association list in insertion order with pairwise distinct keys.

  Objects are modelled as values. In the program a dict or a list is changed in place
  only while one path leads to it: a case through its position in \<open>sager\<close>, a
  document through its position in \<open>dokumenter\<close> (it is put under its case after
  the last change to it), a child list through the one parent that holds it, for the
  helper makes each child list afresh. The lists of file rows are shared by the objects
  that carry them, and are never changed once fil.csv has been read.
\<close>

type_synonym cell = "string option"

type_synonym csv_row = "(string \<times> cell) list"

datatype pyval =
    PNone
  | PStr string
  | PList "pyval list"
  | PDict "(string \<times> pyval) list"

type_synonym pydict = "(string \<times> pyval) list"

datatype error =
    MissingCsv
  | KeyError pyval
  | TypeError
  | IndexError
  | AttributeError

text \<open>
  The one line the program prints: the key that was not found and the child object that
  was to be attached. The rendering of the line as text is not modelled.
\<close>

datatype diag = NotFound cell pydict

definition cell_val :: "cell \<Rightarrow> pyval" where
  "cell_val c = (case c of None \<Rightarrow> PNone | Some s \<Rightarrow> PStr s)"

definition read_row :: "csv_row \<Rightarrow> pydict" where
  "read_row r = map (\<lambda>(k, c). (k, cell_val c)) r"

definition dict_get :: "pydict \<Rightarrow> string \<Rightarrow> pyval option" where
  "dict_get d k = map_of d k"

text \<open>\<^verbatim>\<open>d[k] = v\<close>: an existing key keeps its place, a new key goes last.\<close>

definition dict_set :: "pydict \<Rightarrow> string \<Rightarrow> pyval \<Rightarrow> pydict" where
  "dict_set d k v = AList.update k v d"

text \<open>
  A value used as a dict key must be hashable: \<^verbatim>\<open>None\<close> and strings are, lists and
  dicts raise \<^verbatim>\<open>TypeError\<close>.
\<close>

fun as_key :: "pyval \<Rightarrow> cell option" where
  "as_key PNone = Some None"
| "as_key (PStr s) = Some (Some s)"
| "as_key (PList xs) = None"
| "as_key (PDict d) = None"

text \<open>\<^verbatim>\<open>d[k]\<close> read in order to be used as a key of another dict.\<close>

definition item_key :: "pydict \<Rightarrow> string \<Rightarrow> error + cell" where
  "item_key d k =
     (case dict_get d k of
        None \<Rightarrow> Inl (KeyError (PStr k))
      | Some v \<Rightarrow> (case as_key v of None \<Rightarrow> Inl TypeError | Some c \<Rightarrow> Inr c))"

text \<open>\<^verbatim>\<open>xs[i]\<close> locates a position; a negative index counts from the end.\<close>

definition list_index :: "'a list \<Rightarrow> int \<Rightarrow> nat option" where
  "list_index xs i =
     (if 0 \<le> i \<and> i < int (length xs) then Some (nat i)
      else if i < 0 \<and> - int (length xs) \<le> i then Some (nat (int (length xs) + i))
      else None)"

text \<open>A \<^verbatim>\<open>for\<close> loop whose body may raise: the first exception ends the loop. The
  state handed back with the exception is the one before the failing step; it is used
  for what has been printed so far, and a step that raises prints nothing (the helper
  prints only when it returns).\<close>

fun for_each :: "('s \<Rightarrow> 'a \<Rightarrow> error + 's) \<Rightarrow> 'a list \<Rightarrow> 's \<Rightarrow> (error \<times> 's) + 's" where
  "for_each body [] s = Inr s"
| "for_each body (x # xs) s =
     (case body s x of Inl e \<Rightarrow> Inl (e, s) | Inr s' \<Rightarrow> for_each body xs s')"

section \<open>The parent-attach helper\<close>

definition append_to_obj ::
  "pydict list \<Rightarrow> (cell \<rightharpoonup> int) \<Rightarrow> cell \<Rightarrow> string \<Rightarrow> pydict
     \<Rightarrow> error + (pydict list \<times> (cell \<rightharpoonup> int) \<times> diag list)" where
  "append_to_obj parent_objects parent_index_map index_key child_obj_type child_obj =
     (case parent_index_map index_key of
        None \<Rightarrow> Inr (parent_objects, parent_index_map, [NotFound index_key child_obj])
      | Some i \<Rightarrow>
          (case list_index parent_objects i of
             None \<Rightarrow> Inl IndexError
           | Some p \<Rightarrow>
               (let corresponding_obj = parent_objects ! p;
                    corresponding_obj =
                      (if dict_get corresponding_obj child_obj_type = None
                       then dict_set corresponding_obj child_obj_type (PList [])
                       else corresponding_obj)
                in case dict_get corresponding_obj child_obj_type of
                     Some (PList children) \<Rightarrow>
                       Inr (parent_objects
                              [p := dict_set corresponding_obj child_obj_type
                                      (PList (children @ [PDict child_obj]))],
                            parent_index_map, [])
                   | _ \<Rightarrow> Inl AttributeError)))"

section \<open>The four passes\<close>

subsection \<open>fil.csv: the file index\<close>

datatype owner = Dokument | Cdw | Notat

type_synonym files = "owner \<Rightarrow> cell \<rightharpoonup> pydict list"

definition dict_mapping :: "cell \<rightharpoonup> owner" where
  "dict_mapping =
     [Some ''dokument'' \<mapsto> Dokument, Some ''cdw'' \<mapsto> Cdw, Some ''notat'' \<mapsto> Notat]"

definition fil_step :: "files \<Rightarrow> pydict \<Rightarrow> error + files" where
  "fil_step fs fil =
     (case item_key fil ''notes_template_name'' of
        Inl e \<Rightarrow> Inl e
      | Inr name \<Rightarrow>
          (case dict_mapping name of
             None \<Rightarrow> Inl (KeyError (cell_val name))
           | Some kind \<Rightarrow>
               (case item_key fil ''notes_template_id'' of
                  Inl e \<Rightarrow> Inl e
                | Inr oid \<Rightarrow>
                    (let appropriate_dict = fs kind;
                         appropriate_dict =
                           (if appropriate_dict oid = None then appropriate_dict(oid \<mapsto> [])
                            else appropriate_dict)
                     in case appropriate_dict oid of
                          None \<Rightarrow> Inl (KeyError (cell_val oid))
                        | Some l \<Rightarrow> Inr (fs(kind := appropriate_dict(oid \<mapsto> l @ [fil])))))))"

definition no_files :: files where
  "no_files = (\<lambda>kind. Map.empty)"

subsection \<open>sag.csv: the case list and its index\<close>

record env =
  sager :: "pydict list"
  index_mapping_sager :: "cell \<rightharpoonup> int"
  dokumenter :: "pydict list"
  index_mapping_dokumenter :: "cell \<rightharpoonup> int"
  stdout :: "diag list"

definition sag_step :: "env \<Rightarrow> pydict \<Rightarrow> error + env" where
  "sag_step env sag =
     (let sager' = sager env @ [sag]
      in case item_key sag ''SagsNr'' of
           Inl e \<Rightarrow> Inl e
         | Inr nr \<Rightarrow>
             Inr (env\<lparr>sager := sager',
                      index_mapping_sager :=
                        (index_mapping_sager env)(nr \<mapsto> int (length sager') - 1)\<rparr>))"

definition append_to_sag :: "env \<Rightarrow> cell \<Rightarrow> string \<Rightarrow> pydict \<Rightarrow> error + env" where
  "append_to_sag env sagsNr obj_type obj =
     (case append_to_obj (sager env) (index_mapping_sager env) sagsNr obj_type obj of
        Inl e \<Rightarrow> Inl e
      | Inr (ps, m, out) \<Rightarrow>
          Inr (env\<lparr>sager := ps, index_mapping_sager := m, stdout := stdout env @ out\<rparr>))"

definition append_to_dokument :: "env \<Rightarrow> cell \<Rightarrow> pydict \<Rightarrow> error + env" where
  "append_to_dokument env dokId obj =
     (case append_to_obj (dokumenter env) (index_mapping_dokumenter env) dokId ''cdwListe'' obj of
        Inl e \<Rightarrow> Inl e
      | Inr (ps, m, out) \<Rightarrow>
          Inr (env\<lparr>dokumenter := ps, index_mapping_dokumenter := m,
                   stdout := stdout env @ out\<rparr>))"

subsection \<open>dokumentcdw.csv: documents and their attachments\<close>

definition cdw_keys :: "string list" where
  "cdw_keys =
     [''cdw_id'', ''cdwDocumentUniqueID'', ''cdwCreatedDate'', ''From1'', ''PostedDate'',
      ''SendTo'', ''CopyTo'', ''BlindCopyTo'', ''Subject'', ''cdwBody'']"

text \<open>Lines 109 to 133: the row is split into the pair (dokument, cdw).\<close>

definition split_item :: "string \<times> pyval \<Rightarrow> pydict \<times> pydict \<Rightarrow> pydict \<times> pydict" where
  "split_item item acc =
     (case (item, acc) of
        ((key, value), (dokument, cdw)) \<Rightarrow>
          (let value = (if value = PNone then PStr [] else value)
           in if key \<in> set cdw_keys then (dokument, dict_set cdw key value)
              else (dict_set dokument key value, cdw)))"

definition split_dokumentcdw :: "pydict \<Rightarrow> pydict \<times> pydict" where
  "split_dokumentcdw dokumentcdw = fold split_item dokumentcdw ([], [])"

text \<open>The pattern \<^verbatim>\<open>if obj[id] in d: obj["filListe"] = d[obj[id]]\<close>, written out
  three times in the source.\<close>

definition add_filListe :: "(cell \<rightharpoonup> pydict list) \<Rightarrow> cell \<Rightarrow> pydict \<Rightarrow> pydict" where
  "add_filListe d k obj =
     (case d k of None \<Rightarrow> obj | Some l \<Rightarrow> dict_set obj ''filListe'' (PList (map PDict l)))"

definition register_dokument :: "files \<Rightarrow> env \<Rightarrow> pydict \<Rightarrow> pyval \<Rightarrow> error + env" where
  "register_dokument fs env dokument dokument_id =
     (if dokument_id \<notin> set (map PDict (dokumenter env)) then
        (case as_key dokument_id of
           None \<Rightarrow> Inl TypeError
         | Some k \<Rightarrow>
             (let dokument = add_filListe (fs Dokument) k dokument;
                  dokumenter' = dokumenter env @ [dokument]
              in Inr (env\<lparr>dokumenter := dokumenter',
                          index_mapping_dokumenter :=
                            (index_mapping_dokumenter env)
                              (k \<mapsto> int (length dokumenter') - 1)\<rparr>)))
      else Inr env)"

definition attach_cdw :: "files \<Rightarrow> env \<Rightarrow> pydict \<Rightarrow> pydict \<Rightarrow> error + env" where
  "attach_cdw fs env dokumentcdw cdw =
     (case dict_get cdw ''cdw_id'' of
        None \<Rightarrow> Inl (KeyError (PStr ''cdw_id''))
      | Some cdw_id \<Rightarrow>
          if cdw_id \<noteq> PStr [] then
            (case as_key cdw_id of
               None \<Rightarrow> Inl TypeError
             | Some k \<Rightarrow>
                 (let cdw = add_filListe (fs Cdw) k cdw
                  in case item_key dokumentcdw ''dokument_id'' of
                       Inl e \<Rightarrow> Inl e
                     | Inr dokId \<Rightarrow> append_to_dokument env dokId cdw))
          else Inr env)"

definition dokumentcdw_step :: "files \<Rightarrow> env \<Rightarrow> pydict \<Rightarrow> error + env" where
  "dokumentcdw_step fs env dokumentcdw =
     (case split_dokumentcdw dokumentcdw of
        (dokument, cdw) \<Rightarrow>
          (case dict_get dokument ''dokument_id'' of
             None \<Rightarrow> Inl (KeyError (PStr ''dokument_id''))
           | Some dokument_id \<Rightarrow>
               (case register_dokument fs env dokument dokument_id of
                  Inl e \<Rightarrow> Inl e
                | Inr env' \<Rightarrow> attach_cdw fs env' dokumentcdw cdw)))"

subsection \<open>Documents to their cases, then notat.csv\<close>

definition dokument_to_sag :: "env \<Rightarrow> pydict \<Rightarrow> error + env" where
  "dokument_to_sag env dokument =
     (case item_key dokument ''SagsNr'' of
        Inl e \<Rightarrow> Inl e
      | Inr sagsnr \<Rightarrow> append_to_sag env sagsnr ''dokumentListe'' dokument)"

definition notat_step :: "files \<Rightarrow> env \<Rightarrow> pydict \<Rightarrow> error + env" where
  "notat_step fs env notat =
     (case item_key notat ''notat_id'' of
        Inl e \<Rightarrow> Inl e
      | Inr k \<Rightarrow>
          (let notat = add_filListe (fs Notat) k notat
           in case item_key notat ''SagsNr'' of
                Inl e \<Rightarrow> Inl e
              | Inr sagsnr \<Rightarrow> append_to_sag env sagsnr ''notatListe'' notat))"

subsection \<open>The run\<close>

text \<open>
  The folder holds each of the four tables or lacks it. A run ends with an exception or
  by writing \<^verbatim>\<open>cirius.json\<close>; \<open>cirius_json\<close> is the value the run has written, if it has
  written one. Failures of the file system other than a missing table, and the encoding
  of the value as JSON text, are not modelled.
\<close>

record folder =
  fil_csv :: "csv_row list option"
  sag_csv :: "csv_row list option"
  dokumentcdw_csv :: "csv_row list option"
  notat_csv :: "csv_row list option"

record outcome =
  raised :: "error option"
  printed :: "diag list"
  cirius_json :: "pyval option"

definition abort :: "error \<Rightarrow> diag list \<Rightarrow> outcome" where
  "abort e out = \<lparr>raised = Some e, printed = out, cirius_json = None\<rparr>"

definition start_env :: env where
  "start_env = \<lparr>sager = [], index_mapping_sager = Map.empty, dokumenter = [],
                index_mapping_dokumenter = Map.empty, stdout = []\<rparr>"

definition join_tables ::
  "csv_row list \<Rightarrow> csv_row list \<Rightarrow> csv_row list \<Rightarrow> csv_row list \<Rightarrow> (error \<times> diag list) + env" where
  "join_tables fil sag dokumentcdw notat =
     (case for_each fil_step (map read_row fil) no_files of
        Inl (e, fs) \<Rightarrow> Inl (e, [])
      | Inr fs \<Rightarrow>
     (case for_each sag_step (map read_row sag) start_env of
        Inl (e, env) \<Rightarrow> Inl (e, stdout env)
      | Inr env \<Rightarrow>
     (case for_each (dokumentcdw_step fs) (map read_row dokumentcdw) env of
        Inl (e, env) \<Rightarrow> Inl (e, stdout env)
      | Inr env \<Rightarrow>
     (case for_each dokument_to_sag (dokumenter env) env of
        Inl (e, env) \<Rightarrow> Inl (e, stdout env)
      | Inr env \<Rightarrow>
     (case for_each (notat_step fs) (map read_row notat) env of
        Inl (e, env) \<Rightarrow> Inl (e, stdout env)
      | Inr env \<Rightarrow> Inr env)))))"

definition cirius :: "folder \<Rightarrow> outcome" where
  "cirius folder =
     (case (fil_csv folder, sag_csv folder, dokumentcdw_csv folder, notat_csv folder) of
        (Some fil, Some sag, Some dokumentcdw, Some notat) \<Rightarrow>
          (case join_tables fil sag dokumentcdw notat of
             Inl (e, out) \<Rightarrow> abort e out
           | Inr env \<Rightarrow>
               \<lparr>raised = None, printed = stdout env,
                cirius_json = Some (PList (map PDict (sager env)))\<rparr>)
      | _ \<Rightarrow> abort MissingCsv [])"



section \<open>Reading the tables and the output\<close>

text \<open>The objects nested in a field of an object; none if the field is not a list.\<close>

definition children :: "pydict \<Rightarrow> string \<Rightarrow> pyval list" where
  "children obj f = (case dict_get obj f of Some (PList xs) \<Rightarrow> xs | _ \<Rightarrow> [])"

text \<open>A case object without the two child lists that the run adds to it.\<close>

definition own_fields :: "pydict \<Rightarrow> pydict" where
  "own_fields sag = filter (\<lambda>(g, v). g \<noteq> ''dokumentListe'' \<and> g \<noteq> ''notatListe'') sag"

text \<open>The owner a row of fil.csv names: the first two steps of \<open>fil_step\<close>.\<close>

definition fil_owner :: "pydict \<Rightarrow> error + owner \<times> cell" where
  "fil_owner fil =
     (case item_key fil ''notes_template_name'' of
        Inl e \<Rightarrow> Inl e
      | Inr name \<Rightarrow>
          (case dict_mapping name of
             None \<Rightarrow> Inl (KeyError (cell_val name))
           | Some kind \<Rightarrow>
               (case item_key fil ''notes_template_id'' of
                  Inl e \<Rightarrow> Inl e
                | Inr oid \<Rightarrow> Inr (kind, oid))))"

text \<open>The object a row of notat.csv becomes: the first step of \<open>notat_step\<close>.\<close>

definition notat_obj :: "files \<Rightarrow> pydict \<Rightarrow> pydict" where
  "notat_obj fs notat =
     (case item_key notat ''notat_id'' of
        Inl e \<Rightarrow> notat
      | Inr k \<Rightarrow> add_filListe (fs Notat) k notat)"

text \<open>The rows of fil.csv that belong to an owner, in the order of the table.\<close>

definition matching :: "csv_row list \<Rightarrow> owner \<Rightarrow> cell \<Rightarrow> pydict list" where
  "matching fil kind oid = filter (\<lambda>r. fil_owner r = Inr (kind, oid)) (map read_row fil)"

text \<open>
  An object has the files it should have: its id is readable, its field \<^verbatim>\<open>filListe\<close>
  is absent if no row of fil.csv belongs to it and is the list of the rows that belong to
  it otherwise, and the field is there at most once.
\<close>

definition files_ok :: "csv_row list \<Rightarrow> owner \<Rightarrow> string \<Rightarrow> pydict \<Rightarrow> bool" where
  "files_ok fil kind id_field obj =
     (case item_key obj id_field of
        Inl e \<Rightarrow> False
      | Inr oid \<Rightarrow>
          dict_get obj ''filListe'' =
            (if matching fil kind oid = [] then None
             else Some (PList (map PDict (matching fil kind oid)))) \<and>
          length (filter (\<lambda>(g, v). g = ''filListe'') obj) \<le> 1)"

text \<open>The same for a document and the attachments nested in it.\<close>

definition dokument_ok :: "csv_row list \<Rightarrow> pydict \<Rightarrow> bool" where
  "dokument_ok fil dokument =
     (files_ok fil Dokument ''dokument_id'' dokument \<and>
      (\<forall>w \<in> set (children dokument ''cdwListe'').
         case w of PDict cdw \<Rightarrow> files_ok fil Cdw ''cdw_id'' cdw | _ \<Rightarrow> False))"

text \<open>A case has no files of its own; its documents and notes have theirs.\<close>

definition sag_ok :: "csv_row list \<Rightarrow> pydict \<Rightarrow> bool" where
  "sag_ok fil sag =
     (dict_get sag ''filListe'' = None \<and>
      (\<forall>v \<in> set (children sag ''dokumentListe'').
         case v of PDict dokument \<Rightarrow> dokument_ok fil dokument | _ \<Rightarrow> False) \<and>
      (\<forall>v \<in> set (children sag ''notatListe'').
         case v of PDict notat \<Rightarrow> files_ok fil Notat ''notat_id'' notat | _ \<Rightarrow> False))"

section \<open>Dicts and indexing\<close>

lemma dict_get_dict_set:
  "dict_get (dict_set d k v) k' = (if k' = k then Some v else dict_get d k')"
  by (simp add: dict_get_def dict_set_def update_conv')

lemma dict_set_absent: "dict_get d k = None \<Longrightarrow> dict_set d k v = d @ [(k, v)]"
  unfolding dict_get_def dict_set_def
  by (induction d) (auto split: if_splits)

lemma dict_set_twice: "dict_set (dict_set d k v) k w = dict_set d k w"
  by (simp add: dict_set_def)

lemma others_dict_set:
  "filter (\<lambda>(g, v). g \<noteq> k) (dict_set d k v) = filter (\<lambda>(g, v). g \<noteq> k) d"
  unfolding dict_set_def by (induction d) auto

lemma list_index_less: "list_index xs i = Some p \<Longrightarrow> p < length xs"
  by (auto simp: list_index_def split: if_splits)

section \<open>The parent-attach helper: what it does and what it leaves alone\<close>

text \<open>
  C3, as stated, fails: with the key present the helper can still raise. Here the parent
  already has a field of the child list's name that holds a string, and appending to it is
  an \<^verbatim>\<open>AttributeError\<close>; the child is not appended.
\<close>

theorem append_to_obj_present_key_raises:
  "append_to_obj [[(''kids'', PStr ''x'')]] [Some ''k'' \<mapsto> 0] (Some ''k'') ''kids'' []
     = Inl AttributeError"
  by (simp add: append_to_obj_def list_index_def dict_get_def)

text \<open>
  C3, amended. If the key is absent from the index map, the helper raises nothing, prints
  the diagnostic with the key and the child, and hands back the parents and the map as
  they were. If the key is present, its index lies within the parent list, and the named
  field of the parent found there is absent or holds a list, the helper puts the child at
  the end of that list (a new one-element list where the field was absent) and prints
  nothing; so children attached one after the other stay in the order of arrival.
\<close>

theorem append_to_obj_attach:
  "(m k = None \<longrightarrow> append_to_obj ps m k f c = Inr (ps, m, [NotFound k c])) \<and>
   (\<forall>i p. m k = Some i \<and> list_index ps i = Some p \<longrightarrow>
      (dict_get (ps ! p) f = None \<longrightarrow>
         append_to_obj ps m k f c = Inr (ps[p := ps ! p @ [(f, PList [PDict c])]], m, [])) \<and>
      (\<forall>xs. dict_get (ps ! p) f = Some (PList xs) \<longrightarrow>
         append_to_obj ps m k f c =
           Inr (ps[p := dict_set (ps ! p) f (PList (xs @ [PDict c]))], m, [])))"
proof -
  have absent: "dict_get d f = None \<Longrightarrow>
      dict_set d f (PList [PDict c]) = d @ [(f, PList [PDict c])]" for d
    by (rule dict_set_absent)
  show ?thesis
    by (auto simp: append_to_obj_def Let_def dict_get_dict_set dict_set_twice absent)
qed

theorem append_to_obj_attach_witness:
  "append_to_obj [[(''a'', PStr ''1'')]] Map.empty (Some ''k'') ''kids'' [(''c'', PNone)]
     = Inr ([[(''a'', PStr ''1'')]], Map.empty, [NotFound (Some ''k'') [(''c'', PNone)]]) \<and>
   append_to_obj [[(''a'', PStr ''1'')]] [Some ''k'' \<mapsto> 0] (Some ''k'') ''kids''
       [(''c'', PNone)]
     = Inr ([[(''a'', PStr ''1''), (''kids'', PList [PDict [(''c'', PNone)]])]],
            [Some ''k'' \<mapsto> 0], []) \<and>
   append_to_obj [[(''a'', PStr ''1''), (''kids'', PList [PDict []])]] [Some ''k'' \<mapsto> -1]
       (Some ''k'') ''kids'' [(''c'', PNone)]
     = Inr ([[(''a'', PStr ''1''), (''kids'', PList [PDict [], PDict [(''c'', PNone)]])]],
            [Some ''k'' \<mapsto> -1], [])"
  using
    append_to_obj_attach [of Map.empty "Some ''k''" "[[(''a'', PStr ''1'')]]" "''kids''"
      "[(''c'', PNone)]"]
    append_to_obj_attach [of "[Some ''k'' \<mapsto> 0]" "Some ''k''" "[[(''a'', PStr ''1'')]]"
      "''kids''" "[(''c'', PNone)]"]
    append_to_obj_attach [of "[Some ''k'' \<mapsto> -1]" "Some ''k''"
      "[[(''a'', PStr ''1''), (''kids'', PList [PDict []])]]" "''kids''" "[(''c'', PNone)]"]
  by (simp add: list_index_def dict_get_def dict_set_def)

text \<open>
  C10. A call that finds the key and returns has changed one thing only: the named
  child-list field of the parent at the position the index map gives. The map is handed
  back as it was, nothing is printed, the parent list keeps its length, every other
  parent is the same, and in the parent that was found every other field keeps its value
  and its place.
\<close>

theorem append_to_obj_frame:
  assumes "append_to_obj ps m k f c = Inr (ps', m', out)" and "m k = Some i"
  shows "\<exists>p. list_index ps i = Some p \<and> p < length ps \<and> m' = m \<and> out = [] \<and>
             length ps' = length ps \<and>
             (\<forall>j < length ps. j \<noteq> p \<longrightarrow> ps' ! j = ps ! j) \<and>
             filter (\<lambda>(g, v). g \<noteq> f) (ps' ! p) = filter (\<lambda>(g, v). g \<noteq> f) (ps ! p)"
proof -
  from assms obtain p where p: "list_index ps i = Some p"
    by (auto simp: append_to_obj_def split: option.splits)
  then have lt: "p < length ps" by (rule list_index_less)
  from assms p lt have "m' = m \<and> out = [] \<and> length ps' = length ps \<and>
             (\<forall>j < length ps. j \<noteq> p \<longrightarrow> ps' ! j = ps ! j) \<and>
             filter (\<lambda>(g, v). g \<noteq> f) (ps' ! p) = filter (\<lambda>(g, v). g \<noteq> f) (ps ! p)"
    by (auto simp: append_to_obj_def Let_def others_dict_set
        split: option.splits pyval.splits if_splits)
  with p lt show ?thesis by blast
qed

theorem append_to_obj_frame_witness:
  "append_to_obj [[(''a'', PStr ''1'')], [(''b'', PStr ''2''), (''kids'', PList [])]]
       [Some ''k'' \<mapsto> 1] (Some ''k'') ''kids'' [(''c'', PNone)]
     = Inr ([[(''a'', PStr ''1'')],
             [(''b'', PStr ''2''), (''kids'', PList [PDict [(''c'', PNone)]])]],
            [Some ''k'' \<mapsto> 1], []) \<and>
   list_index [[(''a'', PStr ''1'')], [(''b'', PStr ''2''), (''kids'', PList [])]] 1 = Some 1 \<and>
   filter (\<lambda>(g, v). g \<noteq> ''kids'')
       [(''b'', PStr ''2''), (''kids'', PList [PDict [(''c'', PNone)]])]
     = [(''b'', PStr ''2'')]"
proof -
  have run: "append_to_obj [[(''a'', PStr ''1'')], [(''b'', PStr ''2''), (''kids'', PList [])]]
       [Some ''k'' \<mapsto> 1] (Some ''k'') ''kids'' [(''c'', PNone)]
     = Inr ([[(''a'', PStr ''1'')],
             [(''b'', PStr ''2''), (''kids'', PList [PDict [(''c'', PNone)]])]],
            [Some ''k'' \<mapsto> 1], [])"
    by (simp add: append_to_obj_def list_index_def dict_get_def dict_set_def)
  have key: "[Some ''k'' \<mapsto> (1::int)] (Some ''k'') = Some 1" by simp
  from append_to_obj_frame [OF run key] run show ?thesis
    by (auto simp: list_index_def)
qed

lemmas run_defs = cirius_def join_tables_def read_row_def cell_val_def fil_step_def sag_step_def
  dokumentcdw_step_def start_env_def no_files_def item_key_def dict_get_def dict_set_def
  split_dokumentcdw_def split_item_def cdw_keys_def register_dokument_def attach_cdw_def
  add_filListe_def append_to_dokument_def append_to_sag_def append_to_obj_def list_index_def
  dokument_to_sag_def notat_step_def dict_mapping_def abort_def Let_def

lemma for_each_append:
  "for_each body (xs @ ys) s =
     (case for_each body xs s of Inl e \<Rightarrow> Inl e | Inr s' \<Rightarrow> for_each body ys s')"
  by (induction xs arbitrary: s) (auto split: sum.splits)

lemma dict_get_None_iff: "dict_get d k = None \<longleftrightarrow> k \<notin> fst ` set d"
  by (simp add: dict_get_def map_of_eq_None_iff)

section \<open>Splitting a dokumentcdw row\<close>

lemma split_fold:
  "distinct (map fst row) \<Longrightarrow> fst ` set row \<inter> (fst ` set d \<union> fst ` set c) = {} \<Longrightarrow>
   fold split_item row (d, c) =
     (d @ filter (\<lambda>(k, v). k \<notin> set cdw_keys) (map (\<lambda>(k, v). (k, if v = PNone then PStr [] else v)) row),
      c @ filter (\<lambda>(k, v). k \<in> set cdw_keys) (map (\<lambda>(k, v). (k, if v = PNone then PStr [] else v)) row))"
proof (induction row arbitrary: d c)
  case Nil
  then show ?case by simp
next
  case (Cons x row)
  obtain k v where x: "x = (k, v)" by (cases x)
  from Cons.prems x have kd: "dict_get d k = None" and kc: "dict_get c k = None"
    by (auto simp: dict_get_None_iff)
  from Cons.prems x have dis: "distinct (map fst row)" and k: "k \<notin> fst ` set row"
    by auto
  show ?case
  proof (cases "k \<in> set cdw_keys")
    case True
    have step: "split_item x (d, c) = (d, c @ [(k, if v = PNone then PStr [] else v)])"
      using True kc by (simp add: split_item_def x dict_set_absent Let_def)
    have "fst ` set row \<inter> (fst ` set d \<union> fst ` set (c @ [(k, if v = PNone then PStr [] else v)])) = {}"
      using Cons.prems k x by auto
    from Cons.IH [OF dis this] step True show ?thesis by (simp add: x)
  next
    case False
    have step: "split_item x (d, c) = (d @ [(k, if v = PNone then PStr [] else v)], c)"
      using False kd by (simp add: split_item_def x dict_set_absent Let_def)
    have "fst ` set row \<inter> (fst ` set (d @ [(k, if v = PNone then PStr [] else v)]) \<union> fst ` set c) = {}"
      using Cons.prems k x by auto
    from Cons.IH [OF dis this] step False show ?thesis by (simp add: x)
  qed
qed

text \<open>
  C4. A dokumentcdw row (a dict: its keys are distinct) is split exactly. The cdw dict
  holds the fields named in the list of ten attachment keys and no other, the dokument
  dict holds every other field and none of the ten, both in the order of the row, so no
  field is in both and none is lost; and every value \<^verbatim>\<open>None\<close> has become the empty
  string. This holds for every row, whatever its attachment id.
\<close>

theorem split_dokumentcdw_partition:
  assumes "distinct (map fst dokumentcdw)"
  shows "split_dokumentcdw dokumentcdw =
     (filter (\<lambda>(key, value). key \<notin> set cdw_keys)
        (map (\<lambda>(key, value). (key, if value = PNone then PStr [] else value)) dokumentcdw),
      filter (\<lambda>(key, value). key \<in> set cdw_keys)
        (map (\<lambda>(key, value). (key, if value = PNone then PStr [] else value)) dokumentcdw))
    \<and> length cdw_keys = 10 \<and> distinct cdw_keys"
  using split_fold [of dokumentcdw "[]" "[]"] assms
  by (simp add: split_dokumentcdw_def cdw_keys_def)

theorem split_dokumentcdw_partition_witness:
  "split_dokumentcdw (read_row [(''dokument_id'', Some ''d1''), (''cdw_id'', Some ''a1''),
       (''Titel'', None), (''Subject'', None), (''SagsNr'', Some ''s1'')]) =
     ([(''dokument_id'', PStr ''d1''), (''Titel'', PStr ''''), (''SagsNr'', PStr ''s1'')],
      [(''cdw_id'', PStr ''a1''), (''Subject'', PStr '''')])"
  using split_dokumentcdw_partition [of "read_row [(''dokument_id'', Some ''d1''),
       (''cdw_id'', Some ''a1''), (''Titel'', None), (''Subject'', None), (''SagsNr'', Some ''s1'')]"]
  by (simp add: read_row_def cell_val_def cdw_keys_def)

section \<open>The case index\<close>

lemma sag_step_Inr:
  "sag_step env sag = Inr env' \<Longrightarrow>
     \<exists>nr. item_key sag ''SagsNr'' = Inr nr \<and>
       env' = env\<lparr>sager := sager env @ [sag],
                  index_mapping_sager := (index_mapping_sager env)(nr \<mapsto> int (length (sager env)))\<rparr>"
  by (auto simp: sag_step_def Let_def split: sum.splits)

lemma sag_pass:
  "for_each sag_step rows env = Inr env' \<Longrightarrow>
     sager env' = sager env @ rows \<and>
     (\<forall>i < length rows. \<forall>k. item_key (rows ! i) ''SagsNr'' = Inr k \<and>
         (\<forall>j. i < j \<and> j < length rows \<longrightarrow> item_key (rows ! j) ''SagsNr'' \<noteq> Inr k) \<longrightarrow>
         index_mapping_sager env' k = Some (int (length (sager env) + i)))"
proof (induction rows arbitrary: env' rule: rev_induct)
  case Nil
  then show ?case by simp
next
  case (snoc x xs)
  from snoc.prems obtain env1 where xs: "for_each sag_step xs env = Inr env1"
    and x: "sag_step env1 x = Inr env'"
    by (auto simp: for_each_append split: sum.splits)
  from snoc.IH [OF xs] have s1: "sager env1 = sager env @ xs"
    and i1: "\<And>i k. i < length xs \<Longrightarrow> item_key (xs ! i) ''SagsNr'' = Inr k \<Longrightarrow>
         (\<forall>j. i < j \<and> j < length xs \<longrightarrow> item_key (xs ! j) ''SagsNr'' \<noteq> Inr k) \<Longrightarrow>
         index_mapping_sager env1 k = Some (int (length (sager env) + i))"
    by blast+
  from sag_step_Inr [OF x] obtain nr where nr: "item_key x ''SagsNr'' = Inr nr"
    and env': "env' = env1\<lparr>sager := sager env1 @ [x],
                  index_mapping_sager := (index_mapping_sager env1)(nr \<mapsto> int (length (sager env1)))\<rparr>"
    by blast
  have "index_mapping_sager env' k = Some (int (length (sager env) + i))"
    if i: "i < length (xs @ [x])" and k: "item_key ((xs @ [x]) ! i) ''SagsNr'' = Inr k"
      and last: "\<forall>j. i < j \<and> j < length (xs @ [x]) \<longrightarrow> item_key ((xs @ [x]) ! j) ''SagsNr'' \<noteq> Inr k"
    for i k
  proof (cases "i < length xs")
    case True
    from last [rule_format, of "length xs"] True nr have ne: "nr \<noteq> k" by auto
    have "\<forall>j. i < j \<and> j < length xs \<longrightarrow> item_key (xs ! j) ''SagsNr'' \<noteq> Inr k"
    proof (intro allI impI)
      fix j assume j: "i < j \<and> j < length xs"
      with last [rule_format, of j] show "item_key (xs ! j) ''SagsNr'' \<noteq> Inr k"
        by (simp add: nth_append)
    qed
    with i1 [of i k] True k have "index_mapping_sager env1 k = Some (int (length (sager env) + i))"
      by (simp add: nth_append)
    with ne show ?thesis by (simp add: env')
  next
    case False
    with i have "i = length xs" by simp
    with k nr have "k = nr" by simp
    then show ?thesis using \<open>i = length xs\<close> by (simp add: env' s1)
  qed
  then show ?case by (simp add: env' s1)
qed

section \<open>Aborting runs\<close>

lemma for_each_raises:
  "x \<in> set xs \<Longrightarrow> (\<And>s. \<exists>e. body s x = Inl e) \<Longrightarrow> \<exists>e s'. for_each body xs s = Inl (e, s')"
proof (induction xs arbitrary: s)
  case Nil
  then show ?case by simp
next
  case (Cons y ys)
  show ?case
  proof (cases "body s y")
    case (Inl e)
    then show ?thesis by simp
  next
    case (Inr s1)
    with Cons.prems(2) have "x \<noteq> y" by (metis Inl_Inr_False)
    with Cons.prems(1) have "x \<in> set ys" by simp
    from Cons.IH [OF this Cons.prems(2)] Inr show ?thesis by simp
  qed
qed

lemma dict_get_read_row: "dict_get (read_row r) k = map_option cell_val (map_of r k)"
  unfolding dict_get_def read_row_def by (induction r) auto

lemma as_key_cell_val [simp]: "as_key (cell_val c) = Some c"
  by (cases c) (simp_all add: cell_val_def)

lemma item_key_read_row:
  "item_key (read_row r) k = (case map_of r k of None \<Rightarrow> Inl (KeyError (PStr k)) | Some c \<Rightarrow> Inr c)"
  by (simp add: item_key_def dict_get_read_row split: option.splits)

lemma dict_mapping_Some:
  "dict_mapping c = Some kind \<Longrightarrow> c \<in> {Some ''dokument'', Some ''cdw'', Some ''notat''}"
  by (auto simp: dict_mapping_def split: if_splits)

text \<open>
  C6. If some row of fil.csv has, in its field \<^verbatim>\<open>notes_template_name\<close>, a value that
  is none of the three names dokument, cdw and notat, the run ends with an exception,
  before anything is printed, and writes no output: the row is not skipped.
\<close>

theorem unknown_owner_kind_aborts:
  assumes "fil_csv folder = Some fil" and "row \<in> set fil"
    and "map_of row ''notes_template_name'' = Some name"
    and "name \<notin> {Some ''dokument'', Some ''cdw'', Some ''notat''}"
  shows "raised (cirius folder) \<noteq> None \<and> printed (cirius folder) = [] \<and>
         cirius_json (cirius folder) = None"
proof (cases "sag_csv folder = None \<or> dokumentcdw_csv folder = None \<or> notat_csv folder = None")
  case True
  then show ?thesis
    by (auto simp: cirius_def abort_def assms(1) split: option.splits)
next
  case False
  then obtain sag dokumentcdw notat where tables: "sag_csv folder = Some sag"
    "dokumentcdw_csv folder = Some dokumentcdw" "notat_csv folder = Some notat"
    by auto
  have "dict_mapping name = None"
    using assms(4) dict_mapping_Some [of name] by (cases "dict_mapping name") auto
  then have "\<exists>e. fil_step fs (read_row row) = Inl e" for fs
    by (simp add: fil_step_def item_key_read_row assms(3))
  moreover have "read_row row \<in> set (map read_row fil)"
    using assms(2) by simp
  ultimately obtain e fs where "for_each fil_step (map read_row fil) no_files = Inl (e, fs)"
    using for_each_raises [of "read_row row" "map read_row fil" fil_step no_files] by blast
  then have "join_tables fil sag dokumentcdw notat = Inl (e, [])"
    by (simp add: join_tables_def)
  then show ?thesis
    by (simp add: cirius_def abort_def assms(1) tables)
qed

theorem unknown_owner_kind_aborts_witness:
  "cirius \<lparr>fil_csv = Some [[(''notes_template_name'', Some ''dokument''), (''notes_template_id'', Some ''d1'')],
                           [(''notes_template_name'', Some ''sag''), (''notes_template_id'', Some ''s1'')]],
           sag_csv = Some [[(''SagsNr'', Some ''s1'')]],
           dokumentcdw_csv = Some [], notat_csv = Some []\<rparr>
   = \<lparr>raised = Some (KeyError (PStr ''sag'')), printed = [], cirius_json = None\<rparr>"
proof -
  let ?folder = "\<lparr>fil_csv = Some [[(''notes_template_name'', Some ''dokument''), (''notes_template_id'', Some ''d1'')],
                           [(''notes_template_name'', Some ''sag''), (''notes_template_id'', Some ''s1'')]],
           sag_csv = Some [[(''SagsNr'', Some ''s1'')]],
           dokumentcdw_csv = Some [], notat_csv = Some []\<rparr>"
  have "raised (cirius ?folder) \<noteq> None \<and> printed (cirius ?folder) = [] \<and>
         cirius_json (cirius ?folder) = None"
    by (rule unknown_owner_kind_aborts [where row = "[(''notes_template_name'', Some ''sag''), (''notes_template_id'', Some ''s1'')]"
          and name = "Some ''sag''"
          and fil = "[[(''notes_template_name'', Some ''dokument''), (''notes_template_id'', Some ''d1'')],
                           [(''notes_template_name'', Some ''sag''), (''notes_template_id'', Some ''s1'')]]"]) simp_all
  moreover have "raised (cirius ?folder) = Some (KeyError (PStr ''sag''))"
    by code_simp
  ultimately show ?thesis by (cases "cirius ?folder") simp
qed

text \<open>
  C7. If one of the four tables is missing, the run ends with the exception for the
  missing files, whatever the tables that are there hold: no row has been looked at and
  nothing has been printed. And in every run the output is written last: a run that
  raises an exception has written nothing, and what a run has written is the whole case
  list that the four passes have built.
\<close>

theorem output_only_after_full_tree:
  "((fil_csv folder = None \<or> sag_csv folder = None \<or> dokumentcdw_csv folder = None \<or>
     notat_csv folder = None) \<longrightarrow>
      cirius folder = \<lparr>raised = Some MissingCsv, printed = [], cirius_json = None\<rparr>) \<and>
   (raised (cirius folder) \<noteq> None \<longrightarrow> cirius_json (cirius folder) = None) \<and>
   (\<forall>tree. cirius_json (cirius folder) = Some tree \<longrightarrow>
      (\<exists>fil sag dokumentcdw notat env.
         fil_csv folder = Some fil \<and> sag_csv folder = Some sag \<and>
         dokumentcdw_csv folder = Some dokumentcdw \<and> notat_csv folder = Some notat \<and>
         join_tables fil sag dokumentcdw notat = Inr env \<and>
         tree = PList (map PDict (sager env)) \<and> raised (cirius folder) = None))"
  by (auto simp: cirius_def abort_def split: option.splits sum.splits)

theorem output_only_after_full_tree_witness:
  "cirius \<lparr>fil_csv = Some [[(''notes_template_name'', Some ''sag'')]],
           sag_csv = Some [[(''Titel'', Some ''no number'')]],
           dokumentcdw_csv = None, notat_csv = Some []\<rparr>
     = \<lparr>raised = Some MissingCsv, printed = [], cirius_json = None\<rparr> \<and>
   cirius_json (cirius \<lparr>fil_csv = Some [], sag_csv = Some [[(''Titel'', Some ''no number'')]],
           dokumentcdw_csv = Some [], notat_csv = Some []\<rparr>) = None \<and>
   cirius_json (cirius \<lparr>fil_csv = Some [], sag_csv = Some [[(''SagsNr'', Some ''s1'')]],
           dokumentcdw_csv = Some [], notat_csv = Some []\<rparr>)
     = Some (PList [PDict [(''SagsNr'', PStr ''s1'')]])"
proof -
  have "raised (cirius \<lparr>fil_csv = Some [], sag_csv = Some [[(''Titel'', Some ''no number'')]],
           dokumentcdw_csv = Some [], notat_csv = Some []\<rparr>) \<noteq> None"
    by code_simp
  moreover have "cirius_json (cirius \<lparr>fil_csv = Some [], sag_csv = Some [[(''SagsNr'', Some ''s1'')]],
           dokumentcdw_csv = Some [], notat_csv = Some []\<rparr>)
     = Some (PList [PDict [(''SagsNr'', PStr ''s1'')]])"
    by code_simp
  ultimately show ?thesis
    using output_only_after_full_tree [of "\<lparr>fil_csv = Some [[(''notes_template_name'', Some ''sag'')]],
           sag_csv = Some [[(''Titel'', Some ''no number'')]],
           dokumentcdw_csv = None, notat_csv = Some []\<rparr>"]
      output_only_after_full_tree [of "\<lparr>fil_csv = Some [], sag_csv = Some [[(''Titel'', Some ''no number'')]],
           dokumentcdw_csv = Some [], notat_csv = Some []\<rparr>"]
    by simp
qed

section \<open>Document rows are never merged\<close>

lemma never_in_dokumenter: "as_key v = Some k \<Longrightarrow> v \<notin> set (map PDict ds)"
  by (cases v) auto

text \<open>
  C1 does not hold of the code. The test of line 139 looks for the document id, a string,
  among the dicts of the list \<open>dokumenter\<close>, where it never is; so every row adds
  a document of its own. Two rows with the document id d1 and the attachment ids a1 and a2
  give two documents with one attachment each, not one document with two.
\<close>

theorem duplicate_dokument_rows_not_collapsed:
  "cirius \<lparr>fil_csv = Some [],
      sag_csv = Some [[(''SagsNr'', Some ''s1'')]],
      dokumentcdw_csv = Some
        [[(''dokument_id'', Some ''d1''), (''SagsNr'', Some ''s1''), (''cdw_id'', Some ''a1'')],
         [(''dokument_id'', Some ''d1''), (''SagsNr'', Some ''s1''), (''cdw_id'', Some ''a2'')]],
      notat_csv = Some []\<rparr>
   = \<lparr>raised = None, printed = [],
      cirius_json = Some (PList
        [PDict [(''SagsNr'', PStr ''s1''),
           (''dokumentListe'', PList
              [PDict [(''dokument_id'', PStr ''d1''), (''SagsNr'', PStr ''s1''),
                      (''cdwListe'', PList [PDict [(''cdw_id'', PStr ''a1'')]])],
               PDict [(''dokument_id'', PStr ''d1''), (''SagsNr'', PStr ''s1''),
                      (''cdwListe'', PList [PDict [(''cdw_id'', PStr ''a2'')]])]])]])\<rparr>"
  by code_simp

section \<open>The loops\<close>

lemma for_each_preserves:
  assumes "for_each body xs s = Inr s'" and "P s"
    and "\<And>s x s1. P s \<Longrightarrow> x \<in> set xs \<Longrightarrow> body s x = Inr s1 \<Longrightarrow> P s1"
  shows "P s'"
  using assms
proof (induction xs arbitrary: s)
  case Nil
  then show ?case by simp
next
  case (Cons x xs)
  from Cons.prems(1) obtain s1 where s1: "body s x = Inr s1" and rest: "for_each body xs s1 = Inr s'"
    by (auto split: sum.splits)
  have "P s1" using Cons.prems(3) [OF Cons.prems(2) _ s1] by simp
  moreover have "P t \<Longrightarrow> y \<in> set xs \<Longrightarrow> body t y = Inr t1 \<Longrightarrow> P t1" for t y t1
    using Cons.prems(3) [of t y t1] by simp
  ultimately show ?case using Cons.IH [OF rest] by blast
qed

lemma for_each_cong:
  "(\<And>x s. x \<in> set xs \<Longrightarrow> body s x = body' s x) \<Longrightarrow> for_each body xs s = for_each body' xs s"
  by (induction xs arbitrary: s) (auto split: sum.splits)

section \<open>What a call of the helper does to the parents\<close>

lemma append_to_obj_Inr:
  assumes "append_to_obj ps m k f c = Inr (ps', m', out)"
  shows "m' = m \<and>
     ((m k = None \<and> ps' = ps \<and> out = [NotFound k c]) \<or>
      (\<exists>i p. m k = Some i \<and> list_index ps i = Some p \<and> p < length ps \<and> out = [] \<and>
         (dict_get (ps ! p) f = None \<or> (\<exists>xs. dict_get (ps ! p) f = Some (PList xs))) \<and>
         ps' = ps[p := dict_set (ps ! p) f (PList (children (ps ! p) f @ [PDict c]))]))"
proof (cases "m k")
  case None
  with assms show ?thesis by (auto simp: append_to_obj_def)
next
  case (Some i)
  with assms obtain p where p: "list_index ps i = Some p"
    by (auto simp: append_to_obj_def split: option.splits)
  then have lt: "p < length ps" by (rule list_index_less)
  from assms Some p lt show ?thesis
    by (auto simp: append_to_obj_def Let_def children_def dict_get_dict_set dict_set_twice
        split: option.splits pyval.splits if_splits)
qed

lemma append_to_obj_preserves:
  assumes "append_to_obj ps m k f c = Inr (ps', m', out)"
    and "\<forall>p \<in> set ps. Q p"
    and "\<And>p. Q p \<Longrightarrow> dict_get p f = None \<or> (\<exists>xs. dict_get p f = Some (PList xs)) \<Longrightarrow>
           Q (dict_set p f (PList (children p f @ [PDict c])))"
  shows "\<forall>p \<in> set ps'. Q p"
proof -
  from append_to_obj_Inr [OF assms(1)] consider "ps' = ps"
    | p where "p < length ps" "dict_get (ps ! p) f = None \<or> (\<exists>xs. dict_get (ps ! p) f = Some (PList xs))"
        "ps' = ps[p := dict_set (ps ! p) f (PList (children (ps ! p) f @ [PDict c]))]"
    by blast
  then show ?thesis
  proof cases
    case 1
    with assms(2) show ?thesis by simp
  next
    case 2
    have "Q (ps ! p)" using assms(2) 2(1) by simp
    from assms(3) [OF this 2(2)] assms(2) 2(3) show ?thesis
      by (auto dest!: set_update_subset_insert [THEN subsetD])
  qed
qed

lemma append_to_obj_map:
  assumes "append_to_obj ps m k f c = Inr (ps', m', out)"
    and "\<And>p v. h (dict_set p f v) = h p"
  shows "map h ps' = map h ps"
proof -
  from append_to_obj_Inr [OF assms(1)] consider "ps' = ps"
    | p where "p < length ps" 
        "ps' = ps[p := dict_set (ps ! p) f (PList (children (ps ! p) f @ [PDict c]))]"
    by blast
  then show ?thesis
  proof cases
    case 1
    then show ?thesis by simp
  next
    case 2
    then show ?thesis by (simp add: map_update assms(2) list_update_same_conv)
  qed
qed

lemma own_fields_dict_set:
  "f = ''dokumentListe'' \<or> f = ''notatListe'' \<Longrightarrow> own_fields (dict_set p f v) = own_fields p"
  unfolding own_fields_def dict_set_def by (induction p) auto

lemma append_to_sag_Inr:
  assumes "append_to_sag env k f c = Inr env'"
  shows "\<exists>ps out. append_to_obj (sager env) (index_mapping_sager env) k f c
            = Inr (ps, index_mapping_sager env, out) \<and>
          env' = env\<lparr>sager := ps, stdout := stdout env @ out\<rparr>"
proof -
  from assms obtain ps m out where
    r: "append_to_obj (sager env) (index_mapping_sager env) k f c = Inr (ps, m, out)"
    and e: "env' = env\<lparr>sager := ps, index_mapping_sager := m, stdout := stdout env @ out\<rparr>"
    by (auto simp: append_to_sag_def split: sum.splits)
  from append_to_obj_Inr [OF r] have "m = index_mapping_sager env" by simp
  with r e show ?thesis by simp
qed

lemma append_to_dokument_Inr:
  assumes "append_to_dokument env k c = Inr env'"
  shows "\<exists>ps out. append_to_obj (dokumenter env) (index_mapping_dokumenter env) k ''cdwListe'' c
            = Inr (ps, index_mapping_dokumenter env, out) \<and>
          env' = env\<lparr>dokumenter := ps, stdout := stdout env @ out\<rparr>"
proof -
  from assms obtain ps m out where
    r: "append_to_obj (dokumenter env) (index_mapping_dokumenter env) k ''cdwListe'' c = Inr (ps, m, out)"
    and e: "env' = env\<lparr>dokumenter := ps, index_mapping_dokumenter := m, stdout := stdout env @ out\<rparr>"
    by (auto simp: append_to_dokument_def split: sum.splits)
  from append_to_obj_Inr [OF r] have "m = index_mapping_dokumenter env" by simp
  with r e show ?thesis by simp
qed

section \<open>The case list keeps the order of sag.csv\<close>

lemma dokumentcdw_step_sager:
  assumes "dokumentcdw_step fs env row = Inr env'"
  shows "sager env' = sager env"
proof -
  have reg: "sager e1 = sager e" if "register_dokument fs e d v = Inr e1" for e e1 d v
    using that by (auto simp: register_dokument_def Let_def split: if_splits option.splits)
  have att: "sager e1 = sager e" if "attach_cdw fs e r c = Inr e1" for e e1 r c
    using that
    by (auto simp: attach_cdw_def Let_def split: if_splits option.splits sum.splits
        dest!: append_to_dokument_Inr)
  from assms show ?thesis
    by (auto simp: dokumentcdw_step_def split: prod.splits option.splits sum.splits
        dest!: reg att)
qed

lemma append_to_sag_own_fields:
  assumes "append_to_sag env k f c = Inr env'" and "f = ''dokumentListe'' \<or> f = ''notatListe''"
  shows "map own_fields (sager env') = map own_fields (sager env)"
proof -
  from append_to_sag_Inr [OF assms(1)] obtain ps out where
    r: "append_to_obj (sager env) (index_mapping_sager env) k f c = Inr (ps, index_mapping_sager env, out)"
    and e: "sager env' = ps" by auto
  from append_to_obj_map [OF r, of own_fields] assms(2) e show ?thesis
    by (simp add: own_fields_dict_set)
qed

lemma join_tables_own_fields:
  assumes "join_tables fil sag dokumentcdw notat = Inr env"
  shows "map own_fields (sager env) = map (\<lambda>r. own_fields (read_row r)) sag"
proof -
  from assms obtain fs e2 e3 e4 where
    p2: "for_each sag_step (map read_row sag) start_env = Inr e2"
    and p3: "for_each (dokumentcdw_step fs) (map read_row dokumentcdw) e2 = Inr e3"
    and p4: "for_each dokument_to_sag (dokumenter e3) e3 = Inr e4"
    and p5: "for_each (notat_step fs) (map read_row notat) e4 = Inr env"
    by (auto simp: join_tables_def split: sum.splits)
  from sag_pass [OF p2] have s2: "sager e2 = map read_row sag"
    by (simp add: start_env_def)
  have s3: "sager e3 = sager e2"
    by (rule for_each_preserves [OF p3, where P = "\<lambda>e. sager e = sager e2"])
      (auto dest: dokumentcdw_step_sager)
  have s4: "map own_fields (sager e4) = map own_fields (sager e3)"
    by (rule for_each_preserves [OF p4, where P = "\<lambda>e. map own_fields (sager e) = map own_fields (sager e3)"])
      (auto simp: dokument_to_sag_def split: sum.splits dest!: append_to_sag_own_fields)
  have s5: "map own_fields (sager env) = map own_fields (sager e4)"
    by (rule for_each_preserves [OF p5, where P = "\<lambda>e. map own_fields (sager e) = map own_fields (sager e4)"])
      (auto simp: notat_step_def Let_def split: sum.splits dest!: append_to_sag_own_fields)
  from s2 s3 s4 s5 show ?thesis by simp
qed

text \<open>
  C8. What a run writes is a list with one object for each row of sag.csv, in the order
  of the table: the object at a position is the row at that position, with at most the
  two child lists added, whatever documents and notes refer to it and in whatever order.
\<close>

theorem sager_in_source_order:
  assumes "sag_csv folder = Some sag" and "cirius_json (cirius folder) = Some tree"
  shows "\<exists>cases. tree = PList (map PDict cases) \<and> length cases = length sag \<and>
           map own_fields cases = map (\<lambda>row. own_fields (read_row row)) sag"
proof -
  from assms obtain fil dokumentcdw notat env where
    j: "join_tables fil sag dokumentcdw notat = Inr env" and t: "tree = PList (map PDict (sager env))"
    by (auto simp: cirius_def abort_def split: option.splits sum.splits)
  from join_tables_own_fields [OF j] have m: "map own_fields (sager env) = map (\<lambda>r. own_fields (read_row r)) sag" .
  then have "length (sager env) = length sag" by (metis length_map)
  with t m show ?thesis by blast
qed

theorem sager_in_source_order_witness:
  "cirius_json (cirius \<lparr>fil_csv = Some [],
      sag_csv = Some [[(''SagsNr'', Some ''s2'')], [(''SagsNr'', Some ''s1'')]],
      dokumentcdw_csv = Some [[(''dokument_id'', Some ''d1''), (''SagsNr'', Some ''s1''), (''cdw_id'', None)]],
      notat_csv = Some [[(''notat_id'', Some ''n1''), (''SagsNr'', Some ''s2'')]]\<rparr>)
   = Some (PList
      [PDict [(''SagsNr'', PStr ''s2''),
              (''notatListe'', PList [PDict [(''notat_id'', PStr ''n1''), (''SagsNr'', PStr ''s2'')]])],
       PDict [(''SagsNr'', PStr ''s1''),
              (''dokumentListe'', PList [PDict [(''dokument_id'', PStr ''d1''), (''SagsNr'', PStr ''s1'')]])]])
   \<and> map own_fields
        [[(''SagsNr'', PStr ''s2''),
              (''notatListe'', PList [PDict [(''notat_id'', PStr ''n1''), (''SagsNr'', PStr ''s2'')]])],
         [(''SagsNr'', PStr ''s1''),
              (''dokumentListe'', PList [PDict [(''dokument_id'', PStr ''d1''), (''SagsNr'', PStr ''s1'')]])]]
      = [[(''SagsNr'', PStr ''s2'')], [(''SagsNr'', PStr ''s1'')]]"
proof -
  let ?folder = "\<lparr>fil_csv = Some [],
      sag_csv = Some [[(''SagsNr'', Some ''s2'')], [(''SagsNr'', Some ''s1'')]],
      dokumentcdw_csv = Some [[(''dokument_id'', Some ''d1''), (''SagsNr'', Some ''s1''), (''cdw_id'', None)]],
      notat_csv = Some [[(''notat_id'', Some ''n1''), (''SagsNr'', Some ''s2'')]]\<rparr>"
  have run: "cirius_json (cirius ?folder) = Some (PList
      [PDict [(''SagsNr'', PStr ''s2''),
              (''notatListe'', PList [PDict [(''notat_id'', PStr ''n1''), (''SagsNr'', PStr ''s2'')]])],
       PDict [(''SagsNr'', PStr ''s1''),
              (''dokumentListe'', PList [PDict [(''dokument_id'', PStr ''d1''), (''SagsNr'', PStr ''s1'')]])]])"
    by code_simp
  have sag: "sag_csv ?folder = Some [[(''SagsNr'', Some ''s2'')], [(''SagsNr'', Some ''s1'')]]"
    by simp
  from sager_in_source_order [OF sag run] run show ?thesis
    by (auto simp: read_row_def cell_val_def own_fields_def)
qed

section \<open>The file index\<close>

lemma fil_step_eq:
  "fil_step fs fil =
     (case fil_owner fil of
        Inl e \<Rightarrow> Inl e
      | Inr (kind, oid) \<Rightarrow>
          Inr (fs(kind := (fs kind)(oid \<mapsto> (case fs kind oid of None \<Rightarrow> [] | Some l \<Rightarrow> l) @ [fil]))))"
  by (auto simp: fil_step_def fil_owner_def Let_def split: sum.splits option.splits)

lemma as_key_Some: "as_key v = Some k \<longleftrightarrow> v = cell_val k"
  by (cases v; cases k) (auto simp: cell_val_def)

section \<open>A file row that nothing refers to\<close>

lemma fil_pass_sim:
  assumes "\<forall>k' o'. (k', o') \<noteq> (kind, oid) \<longrightarrow> fs k' o' = fs' k' o'"
  shows "(\<exists>e s s'. for_each fil_step rows fs = Inl (e, s) \<and> for_each fil_step rows fs' = Inl (e, s')) \<or>
         (\<exists>t t'. for_each fil_step rows fs = Inr t \<and> for_each fil_step rows fs' = Inr t' \<and>
            (\<forall>k' o'. (k', o') \<noteq> (kind, oid) \<longrightarrow> t k' o' = t' k' o'))"
  using assms
proof (induction rows arbitrary: fs fs')
  case Nil
  then show ?case by simp
next
  case (Cons r rows)
  show ?case
  proof (cases "fil_owner r")
    case (Inl e)
    then have "fil_step fs r = Inl e" "fil_step fs' r = Inl e"
      by (simp_all add: fil_step_eq [of _ r])
    then show ?thesis by simp
  next
    case (Inr ko)
    obtain k1 o1 where ko: "ko = (k1, o1)" by (cases ko)
    define g where "g = fs(k1 := (fs k1)(o1 \<mapsto> (case fs k1 o1 of None \<Rightarrow> [] | Some l \<Rightarrow> l) @ [r]))"
    define g' where "g' = fs'(k1 := (fs' k1)(o1 \<mapsto> (case fs' k1 o1 of None \<Rightarrow> [] | Some l \<Rightarrow> l) @ [r]))"
    have "\<forall>k' o'. (k', o') \<noteq> (kind, oid) \<longrightarrow> g k' o' = g' k' o'"
      using Cons.prems by (auto simp: g_def g'_def)
    note IH = Cons.IH [OF this]
    have "fil_step fs r = Inr g" "fil_step fs' r = Inr g'"
      by (simp_all add: fil_step_eq [of _ r] Inr ko g_def g'_def)
    then have "for_each fil_step (r # rows) fs = for_each fil_step rows g"
      "for_each fil_step (r # rows) fs' = for_each fil_step rows g'"
      by simp_all
    with IH show ?thesis by (simp only:)
  qed
qed

lemma add_filListe_cong: "d k = d' k \<Longrightarrow> add_filListe d k obj = add_filListe d' k obj"
  by (simp add: add_filListe_def)

lemma dokumentcdw_step_cong:
  assumes "\<forall>k' o'. (k', o') \<noteq> (kind, oid) \<longrightarrow> fs k' o' = fs' k' o'"
    and "kind = Dokument \<longrightarrow> dict_get (fst (split_dokumentcdw row)) ''dokument_id'' \<noteq> Some (cell_val oid)"
    and "kind = Cdw \<longrightarrow> dict_get (snd (split_dokumentcdw row)) ''cdw_id'' \<noteq> Some (cell_val oid)"
  shows "dokumentcdw_step fs env row = dokumentcdw_step fs' env row"
proof -
  obtain dokument cdw where sp: "split_dokumentcdw row = (dokument, cdw)"
    by (cases "split_dokumentcdw row")
  have reg: "register_dokument fs env dokument v = register_dokument fs' env dokument v"
    if "dict_get dokument ''dokument_id'' = Some v" for v
  proof (cases "as_key v")
    case None
    then show ?thesis by (simp add: register_dokument_def)
  next
    case (Some k)
    then have "v = cell_val k" by (simp add: as_key_Some)
    with that assms(2) sp have "(Dokument, k) \<noteq> (kind, oid)" by auto
    with assms(1) have "fs Dokument k = fs' Dokument k" by blast
    then show ?thesis
      by (simp add: register_dokument_def Some add_filListe_cong [of "fs Dokument" k "fs' Dokument"])
  qed
  have att: "attach_cdw fs e row cdw = attach_cdw fs' e row cdw" for e
  proof (cases "dict_get cdw ''cdw_id''")
    case None
    then show ?thesis by (simp add: attach_cdw_def)
  next
    case (Some v)
    show ?thesis
    proof (cases "as_key v")
      case None
      with Some show ?thesis by (simp add: attach_cdw_def)
    next
      case k: (Some k)
      then have "v = cell_val k" by (simp add: as_key_Some)
      with Some assms(3) sp have "(Cdw, k) \<noteq> (kind, oid)" by auto
      with assms(1) have "fs Cdw k = fs' Cdw k" by blast
      then show ?thesis
        by (simp add: attach_cdw_def Some k add_filListe_cong [of "fs Cdw" k "fs' Cdw"])
    qed
  qed
  show ?thesis
    by (auto simp: dokumentcdw_step_def sp reg att split: option.splits sum.splits)
qed

lemma notat_step_cong:
  assumes "\<forall>k' o'. (k', o') \<noteq> (kind, oid) \<longrightarrow> fs k' o' = fs' k' o'"
    and "kind = Notat \<longrightarrow> dict_get row ''notat_id'' \<noteq> Some (cell_val oid)"
  shows "notat_step fs env row = notat_step fs' env row"
proof (cases "item_key row ''notat_id''")
  case (Inl e)
  then show ?thesis by (simp add: notat_step_def)
next
  case (Inr k)
  then have "dict_get row ''notat_id'' = Some (cell_val k)"
    by (auto simp: item_key_def as_key_Some split: option.splits)
  with assms(2) have "(Notat, k) \<noteq> (kind, oid)" by auto
  with assms(1) have "fs Notat k = fs' Notat k" by blast
  then show ?thesis
    by (simp add: notat_step_def Inr add_filListe_cong [of "fs Notat" k "fs' Notat"])
qed

lemma join_tables_unreferenced:
  assumes own: "fil_owner (read_row row) = Inr (kind, oid)"
    and dok: "kind = Dokument \<longrightarrow> (\<forall>r \<in> set dokumentcdw.
        dict_get (fst (split_dokumentcdw (read_row r))) ''dokument_id'' \<noteq> Some (cell_val oid))"
    and cdw: "kind = Cdw \<longrightarrow> (\<forall>r \<in> set dokumentcdw.
        dict_get (snd (split_dokumentcdw (read_row r))) ''cdw_id'' \<noteq> Some (cell_val oid))"
    and nota: "kind = Notat \<longrightarrow> (\<forall>r \<in> set notat.
        dict_get (read_row r) ''notat_id'' \<noteq> Some (cell_val oid))"
  shows "join_tables (before @ row # after) sag dokumentcdw notat =
         join_tables (before @ after) sag dokumentcdw notat"
proof (cases "for_each fil_step (map read_row before) no_files")
  case (Inl es)
  then show ?thesis
    by (simp add: join_tables_def for_each_append split: prod.splits)
next
  case (Inr fs0)
  define fs1 where "fs1 = fs0(kind := (fs0 kind)(oid \<mapsto> (case fs0 kind oid of None \<Rightarrow> [] | Some l \<Rightarrow> l) @ [read_row row]))"
  have "fil_step fs0 (read_row row) = Inr fs1"
    by (simp add: fil_step_eq [of _ "read_row row"] own fs1_def)
  then have one: "for_each fil_step (map read_row (before @ row # after)) no_files
               = for_each fil_step (map read_row after) fs1"
    by (simp add: for_each_append Inr)
  have two: "for_each fil_step (map read_row (before @ after)) no_files
               = for_each fil_step (map read_row after) fs0"
    by (simp add: for_each_append Inr)
  have "\<forall>k' o'. (k', o') \<noteq> (kind, oid) \<longrightarrow> fs1 k' o' = fs0 k' o'"
    by (auto simp: fs1_def)
  from fil_pass_sim [OF this, of "map read_row after"] consider
    e s s' where "for_each fil_step (map read_row after) fs1 = Inl (e, s)"
      "for_each fil_step (map read_row after) fs0 = Inl (e, s')"
  | t t' where "for_each fil_step (map read_row after) fs1 = Inr t"
      "for_each fil_step (map read_row after) fs0 = Inr t'"
      "\<forall>k' o'. (k', o') \<noteq> (kind, oid) \<longrightarrow> t k' o' = t' k' o'"
    by blast
  then show ?thesis
  proof cases
    case 1
    then show ?thesis unfolding join_tables_def one two by simp
  next
    case 2
    have d: "for_each (dokumentcdw_step t) (map read_row dokumentcdw) e
           = for_each (dokumentcdw_step t') (map read_row dokumentcdw) e" for e
      by (rule for_each_cong) (use dok cdw in \<open>auto intro!: dokumentcdw_step_cong [OF 2(3)]\<close>)
    have n: "for_each (notat_step t) (map read_row notat) e
           = for_each (notat_step t') (map read_row notat) e" for e
      by (rule for_each_cong) (use nota in \<open>auto intro!: notat_step_cong [OF 2(3)]\<close>)
    show ?thesis unfolding join_tables_def one two by (simp add: 2(1,2) d n cong: sum.case_cong)
  qed
qed

text \<open>
  C9. Take a row of fil.csv that names one of the three owner kinds and an owner id, and
  suppose no row of dokumentcdw.csv has that id as its document id (for the kind
  dokument) or as its attachment id (for the kind cdw), and no row of notat.csv has it
  as its note id (for the kind notat). Then the run is the run without that row: the
  same output, the same printed lines, the same exception if there is one. The row is
  nowhere in the output and nothing is printed about it.
\<close>

theorem unreferenced_fil_row_dropped:
  assumes "fil_csv folder = Some (before @ row # after)"
    and "dokumentcdw_csv folder = Some dokumentcdw" and "notat_csv folder = Some notat"
    and "fil_owner (read_row row) = Inr (kind, oid)"
    and "kind = Dokument \<longrightarrow> (\<forall>r \<in> set dokumentcdw.
        dict_get (fst (split_dokumentcdw (read_row r))) ''dokument_id'' \<noteq> Some (cell_val oid))"
    and "kind = Cdw \<longrightarrow> (\<forall>r \<in> set dokumentcdw.
        dict_get (snd (split_dokumentcdw (read_row r))) ''cdw_id'' \<noteq> Some (cell_val oid))"
    and "kind = Notat \<longrightarrow> (\<forall>r \<in> set notat.
        dict_get (read_row r) ''notat_id'' \<noteq> Some (cell_val oid))"
  shows "cirius folder = cirius (folder\<lparr>fil_csv := Some (before @ after)\<rparr>)"
  using join_tables_unreferenced [OF assms(4-7), of before after]
  by (simp add: cirius_def assms(1-3) split: option.splits)

theorem unreferenced_fil_row_dropped_witness:
  "cirius \<lparr>fil_csv = Some
        [[(''notes_template_name'', Some ''dokument''), (''notes_template_id'', Some ''d1'')],
         [(''notes_template_name'', Some ''dokument''), (''notes_template_id'', Some ''d9'')]],
      sag_csv = Some [[(''SagsNr'', Some ''s1'')]],
      dokumentcdw_csv = Some
        [[(''dokument_id'', Some ''d1''), (''SagsNr'', Some ''s1''), (''cdw_id'', None)]],
      notat_csv = Some [[(''notat_id'', Some ''d9''), (''SagsNr'', Some ''s1'')]]\<rparr>
   = \<lparr>raised = None, printed = [],
      cirius_json = Some (PList
        [PDict [(''SagsNr'', PStr ''s1''),
           (''dokumentListe'', PList
              [PDict [(''dokument_id'', PStr ''d1''), (''SagsNr'', PStr ''s1''),
                      (''filListe'', PList
                         [PDict [(''notes_template_name'', PStr ''dokument''),
                                 (''notes_template_id'', PStr ''d1'')]])]]),
           (''notatListe'', PList
              [PDict [(''notat_id'', PStr ''d9''), (''SagsNr'', PStr ''s1'')]])]])\<rparr>"
proof -
  let ?f1 = "[(''notes_template_name'', Some ''dokument''), (''notes_template_id'', Some ''d1'')]"
  let ?f2 = "[(''notes_template_name'', Some ''dokument''), (''notes_template_id'', Some ''d9'')]"
  let ?dok = "[[(''dokument_id'', Some ''d1''), (''SagsNr'', Some ''s1''), (''cdw_id'', None)]]"
  let ?notat = "[[(''notat_id'', Some ''d9''), (''SagsNr'', Some ''s1'')]]"
  let ?folder = "\<lparr>fil_csv = Some ([?f1] @ ?f2 # []), sag_csv = Some [[(''SagsNr'', Some ''s1'')]],
      dokumentcdw_csv = Some ?dok, notat_csv = Some ?notat\<rparr>"
  have own: "fil_owner (read_row ?f2) = Inr (Dokument, Some ''d9'')"
    by (simp add: fil_owner_def run_defs)
  have dok: "Dokument = Dokument \<longrightarrow> (\<forall>r \<in> set ?dok.
        dict_get (fst (split_dokumentcdw (read_row r))) ''dokument_id'' \<noteq> Some (cell_val (Some ''d9'')))"
    by (simp add: run_defs)
  have "cirius ?folder = cirius (?folder\<lparr>fil_csv := Some ([?f1] @ [])\<rparr>)"
    by (rule unreferenced_fil_row_dropped [where kind = Dokument and oid = "Some ''d9''"
          and dokumentcdw = ?dok and notat = ?notat, OF _ _ _ own dok]) simp_all
  also have "\<dots> = \<lparr>raised = None, printed = [],
      cirius_json = Some (PList
        [PDict [(''SagsNr'', PStr ''s1''),
           (''dokumentListe'', PList
              [PDict [(''dokument_id'', PStr ''d1''), (''SagsNr'', PStr ''s1''),
                      (''filListe'', PList
                         [PDict [(''notes_template_name'', PStr ''dokument''),
                                 (''notes_template_id'', PStr ''d1'')]])]]),
           (''notatListe'', PList
              [PDict [(''notat_id'', PStr ''d9''), (''SagsNr'', PStr ''s1'')]])]])\<rparr>"
    by code_simp
  finally show ?thesis by simp
qed

section \<open>Files of documents, attachments and notes\<close>

lemma fil_pass:
  "for_each fil_step rows fs0 = Inr fs \<Longrightarrow>
     fs kind oid =
       (case fs0 kind oid of
          None \<Rightarrow> (if filter (\<lambda>r. fil_owner r = Inr (kind, oid)) rows = [] then None
                    else Some (filter (\<lambda>r. fil_owner r = Inr (kind, oid)) rows))
        | Some l \<Rightarrow> Some (l @ filter (\<lambda>r. fil_owner r = Inr (kind, oid)) rows))"
proof (induction rows arbitrary: fs0)
  case Nil
  then show ?case by (simp split: option.splits)
next
  case (Cons r rows)
  from Cons.prems obtain k1 o1 where own: "fil_owner r = Inr (k1, o1)"
    by (cases "fil_owner r") (auto simp: fil_step_eq [of _ r])
  define g where "g = fs0(k1 := (fs0 k1)(o1 \<mapsto> (case fs0 k1 o1 of None \<Rightarrow> [] | Some l \<Rightarrow> l) @ [r]))"
  have "fil_step fs0 r = Inr g"
    by (simp add: fil_step_eq [of _ r] own g_def)
  with Cons.prems have "for_each fil_step rows g = Inr fs" by simp
  from Cons.IH [OF this] show ?case
    by (auto simp: g_def own split: option.splits)
qed

lemma fil_index:
  assumes "for_each fil_step (map read_row fil) no_files = Inr fs"
  shows "fs kind oid = (if matching fil kind oid = [] then None else Some (matching fil kind oid))"
  using fil_pass [OF assms, of kind oid] by (simp add: no_files_def matching_def)


lemma count_dict_set_same:
  "length (filter (\<lambda>(g, v). g = k) (dict_set d k v)) = max 1 (length (filter (\<lambda>(g, v). g = k) d))"
  unfolding dict_set_def by (induction d) auto

lemma count_dict_set_other:
  "k' \<noteq> k \<Longrightarrow> filter (\<lambda>(g, v). g = k') (dict_set d k v) = filter (\<lambda>(g, v). g = k') d"
  unfolding dict_set_def by (induction d) auto

lemma count_absent: "dict_get d k = None \<Longrightarrow> filter (\<lambda>(g, v). g = k) d = []"
  by (force simp: dict_get_None_iff filter_empty_conv)

lemma children_dict_set:
  "children (dict_set d k v) f = (if f = k then (case v of PList xs \<Rightarrow> xs | _ \<Rightarrow> []) else children d f)"
  by (simp add: children_def dict_get_dict_set)

lemma item_key_dict_set: "f \<noteq> k \<Longrightarrow> item_key (dict_set d k v) f = item_key d f"
  by (simp add: item_key_def dict_get_dict_set)

lemma files_ok_dict_set:
  "files_ok fil kind f obj \<Longrightarrow> k \<noteq> f \<Longrightarrow> k \<noteq> ''filListe'' \<Longrightarrow> files_ok fil kind f (dict_set obj k v)"
  by (auto simp: files_ok_def item_key_dict_set dict_get_dict_set count_dict_set_other
      split: sum.splits)

text \<open>An object fresh from a table gets its files.\<close>

lemma files_ok_add_filListe:
  assumes idx: "\<And>oid. d oid = (if matching fil kind oid = [] then None else Some (matching fil kind oid))"
    and key: "item_key obj f = Inr oid" and f: "f \<noteq> ''filListe''"
    and plain: "dict_get obj ''filListe'' = None"
  shows "files_ok fil kind f (add_filListe d oid obj)"
proof (cases "matching fil kind oid = []")
  case True
  with idx [of oid] key plain show ?thesis
    by (simp add: add_filListe_def files_ok_def count_absent)
next
  case False
  with idx [of oid] key f plain show ?thesis
    by (simp add: add_filListe_def files_ok_def item_key_dict_set dict_get_dict_set
        count_dict_set_same count_absent)
qed

lemma add_filListe_other:
  "f \<noteq> ''filListe'' \<Longrightarrow> dict_get (add_filListe d oid obj) f = dict_get obj f"
  by (simp add: add_filListe_def dict_get_dict_set split: option.splits)

text \<open>The two halves of a split row hold strings only, under keys of the row.\<close>

lemma split_get:
  assumes "fold split_item row (d0, c0) = (d, c)"
  shows "(dict_get d f = dict_get d0 f \<or>
            (\<exists>w. (f, w) \<in> set row \<and> dict_get d f = Some (if w = PNone then PStr [] else w))) \<and>
         (dict_get c f = dict_get c0 f \<or>
            (\<exists>w. (f, w) \<in> set row \<and> f \<in> set cdw_keys \<and>
                 dict_get c f = Some (if w = PNone then PStr [] else w)))"
  using assms
proof (induction row arbitrary: d0 c0)
  case Nil
  then show ?case by simp
next
  case (Cons x row)
  obtain k v where x: "x = (k, v)" by (cases x)
  obtain d1 c1 where step: "split_item x (d0, c0) = (d1, c1)" by (cases "split_item x (d0, c0)")
  with Cons.prems have rest: "fold split_item row (d1, c1) = (d, c)" by simp
  from step x have d1: "dict_get d1 f = dict_get d0 f \<or>
      (f = k \<and> dict_get d1 f = Some (if v = PNone then PStr [] else v))"
    and c1: "dict_get c1 f = dict_get c0 f \<or>
      (f = k \<and> f \<in> set cdw_keys \<and> dict_get c1 f = Some (if v = PNone then PStr [] else v))"
    by (auto simp: split_item_def Let_def dict_get_dict_set split: if_splits)
  from Cons.IH [OF rest, THEN conjunct1] d1 x have A: "dict_get d f = dict_get d0 f \<or>
            (\<exists>w. (f, w) \<in> set (x # row) \<and> dict_get d f = Some (if w = PNone then PStr [] else w))"
    by (elim disjE exE conjE) (simp_all, blast+)
  from Cons.IH [OF rest, THEN conjunct2] c1 x have B: "dict_get c f = dict_get c0 f \<or>
            (\<exists>w. (f, w) \<in> set (x # row) \<and> f \<in> set cdw_keys \<and>
                 dict_get c f = Some (if w = PNone then PStr [] else w))"
    by (elim disjE exE conjE) (simp_all, blast+)
  from A B show ?case by blast
qed

lemma read_row_value: "(f, w) \<in> set (read_row r) \<Longrightarrow> \<exists>c. w = cell_val c"
  by (auto simp: read_row_def)

lemma read_row_keys: "fst ` set (read_row r) = fst ` set r"
  by (force simp: read_row_def)

lemma split_read_row:
  assumes "split_dokumentcdw (read_row r) = (dokument, cdw)"
  shows "(dict_get dokument f = None \<or> (f \<in> fst ` set r \<and> (\<exists>s. dict_get dokument f = Some (PStr s)))) \<and>
         (dict_get cdw f = None \<or> (f \<in> set cdw_keys \<and> (\<exists>s. dict_get cdw f = Some (PStr s))))"
proof -
  have norm: "\<exists>s. (if w = PNone then PStr [] else w) = PStr s" if "(f, w) \<in> set (read_row r)" for w
    using read_row_value [OF that] by (auto simp: cell_val_def split: option.splits)
  have key: "f \<in> fst ` set r" if "(f, w) \<in> set (read_row r)" for w
    using that read_row_keys [of r] by force
  from split_get [OF assms [unfolded split_dokumentcdw_def], of f] norm key show ?thesis
    by (auto simp: dict_get_def)
qed

lemma children_read_row: "children (read_row r) f = []"
proof (cases "dict_get (read_row r) f")
  case None
  then show ?thesis by (simp add: children_def)
next
  case (Some w)
  then have "(f, w) \<in> set (read_row r)" by (simp add: dict_get_def map_of_SomeD)
  from read_row_value [OF this] Some show ?thesis
    by (auto simp: children_def cell_val_def split: option.splits)
qed


lemma dokument_ok_attach:
  assumes "dokument_ok fil p" and "files_ok fil Cdw ''cdw_id'' a"
  shows "dokument_ok fil (dict_set p ''cdwListe'' (PList (children p ''cdwListe'' @ [PDict a])))"
  using assms
  by (auto simp: dokument_ok_def files_ok_dict_set children_dict_set)

lemma sag_ok_attach_dokument:
  assumes "sag_ok fil p" and "dokument_ok fil d"
  shows "sag_ok fil (dict_set p ''dokumentListe'' (PList (children p ''dokumentListe'' @ [PDict d])))"
  using assms
  by (auto simp: sag_ok_def dict_get_dict_set children_dict_set)

lemma sag_ok_attach_notat:
  assumes "sag_ok fil p" and "files_ok fil Notat ''notat_id'' n"
  shows "sag_ok fil (dict_set p ''notatListe'' (PList (children p ''notatListe'' @ [PDict n])))"
  using assms
  by (auto simp: sag_ok_def dict_get_dict_set children_dict_set)

lemma register_dokument_ok:
  assumes idx: "\<And>kind oid. fs kind oid =
        (if matching fil kind oid = [] then None else Some (matching fil kind oid))"
    and sp: "split_dokumentcdw (read_row r) = (dokument, cdw)"
    and did: "dict_get dokument ''dokument_id'' = Some did"
    and reg: "register_dokument fs env dokument did = Inr env1"
    and inv: "\<forall>d \<in> set (dokumenter env). dokument_ok fil d"
    and plain: "''filListe'' \<notin> fst ` set r"
  shows "\<forall>d \<in> set (dokumenter env1). dokument_ok fil d"
proof -
  from split_read_row [OF sp, of "''dokument_id''"] did obtain s where s: "did = PStr s"
    by auto
  have key: "item_key dokument ''dokument_id'' = Inr (Some s)"
    by (simp add: item_key_def did s)
  from split_read_row [OF sp, of "''filListe''"] plain
  have nofl: "dict_get dokument ''filListe'' = None" by auto
  let ?d = "add_filListe (fs Dokument) (Some s) dokument"
  have "files_ok fil Dokument ''dokument_id'' ?d"
    by (rule files_ok_add_filListe [OF idx key _ nofl]) simp
  moreover have "children ?d ''cdwListe'' = []"
    using split_read_row [OF sp, of "''cdwListe''"]
    by (auto simp: children_def add_filListe_other)
  ultimately have ok: "dokument_ok fil ?d" by (simp add: dokument_ok_def)
  have "did \<notin> set (map PDict (dokumenter env))"
    by (rule never_in_dokumenter [of _ "Some s"]) (simp add: s)
  with reg have "dokumenter env1 = dokumenter env @ [?d]"
    by (auto simp: register_dokument_def s Let_def)
  with inv ok show ?thesis by simp
qed

lemma attach_cdw_ok:
  assumes idx: "\<And>kind oid. fs kind oid =
        (if matching fil kind oid = [] then None else Some (matching fil kind oid))"
    and sp: "split_dokumentcdw (read_row r) = (dokument, cdw)"
    and att: "attach_cdw fs env1 (read_row r) cdw = Inr env'"
    and inv: "\<forall>d \<in> set (dokumenter env1). dokument_ok fil d"
  shows "\<forall>d \<in> set (dokumenter env'). dokument_ok fil d"
proof -
  from att obtain cid where cid: "dict_get cdw ''cdw_id'' = Some cid"
    by (auto simp: attach_cdw_def split: option.splits)
  from split_read_row [OF sp, of "''cdw_id''"] cid obtain s where s: "cid = PStr s"
    by auto
  show ?thesis
  proof (cases "s = []")
    case True
    with att cid s have "env' = env1" by (simp add: attach_cdw_def)
    with inv show ?thesis by simp
  next
    case False
    have key: "item_key cdw ''cdw_id'' = Inr (Some s)"
      by (simp add: item_key_def cid s)
    from split_read_row [OF sp, of "''filListe''"]
    have nofl: "dict_get cdw ''filListe'' = None" by (auto simp: cdw_keys_def)
    let ?c = "add_filListe (fs Cdw) (Some s) cdw"
    have ok: "files_ok fil Cdw ''cdw_id'' ?c"
      by (rule files_ok_add_filListe [OF idx key _ nofl]) simp
    from att cid s False obtain dokId where "append_to_dokument env1 dokId ?c = Inr env'"
      by (auto simp: attach_cdw_def Let_def split: sum.splits)
    from append_to_dokument_Inr [OF this] obtain ps out where
      r: "append_to_obj (dokumenter env1) (index_mapping_dokumenter env1) dokId ''cdwListe'' ?c
            = Inr (ps, index_mapping_dokumenter env1, out)"
      and e: "dokumenter env' = ps" by auto
    from append_to_obj_preserves [OF r inv] ok e show ?thesis
      by (simp add: dokument_ok_attach)
  qed
qed

lemma dokumentcdw_step_ok:
  assumes idx: "\<And>kind oid. fs kind oid =
        (if matching fil kind oid = [] then None else Some (matching fil kind oid))"
    and step: "dokumentcdw_step fs env (read_row r) = Inr env'"
    and inv: "\<forall>d \<in> set (dokumenter env). dokument_ok fil d"
    and plain: "''filListe'' \<notin> fst ` set r"
  shows "\<forall>d \<in> set (dokumenter env'). dokument_ok fil d"
proof -
  obtain dokument cdw where sp: "split_dokumentcdw (read_row r) = (dokument, cdw)"
    by (cases "split_dokumentcdw (read_row r)")
  from step sp obtain did env1 where did: "dict_get dokument ''dokument_id'' = Some did"
    and reg: "register_dokument fs env dokument did = Inr env1"
    and att: "attach_cdw fs env1 (read_row r) cdw = Inr env'"
    by (auto simp: dokumentcdw_step_def split: option.splits sum.splits)
  from register_dokument_ok [OF idx sp did reg inv plain]
  have "\<forall>d \<in> set (dokumenter env1). dokument_ok fil d" .
  from attach_cdw_ok [OF idx sp att this] show ?thesis .
qed

lemma dokument_to_sag_ok:
  assumes step: "dokument_to_sag env d = Inr env'"
    and inv: "\<forall>s \<in> set (sager env). sag_ok fil s" and d: "dokument_ok fil d"
  shows "\<forall>s \<in> set (sager env'). sag_ok fil s"
proof -
  from step obtain nr where "append_to_sag env nr ''dokumentListe'' d = Inr env'"
    by (auto simp: dokument_to_sag_def split: sum.splits)
  from append_to_sag_Inr [OF this] obtain ps out where
    r: "append_to_obj (sager env) (index_mapping_sager env) nr ''dokumentListe'' d
          = Inr (ps, index_mapping_sager env, out)"
    and e: "sager env' = ps" by auto
  from append_to_obj_preserves [OF r inv] d e show ?thesis
    by (simp add: sag_ok_attach_dokument)
qed

lemma notat_step_ok:
  assumes idx: "\<And>kind oid. fs kind oid =
        (if matching fil kind oid = [] then None else Some (matching fil kind oid))"
    and step: "notat_step fs env (read_row r) = Inr env'"
    and inv: "\<forall>s \<in> set (sager env). sag_ok fil s"
    and plain: "''filListe'' \<notin> fst ` set r"
  shows "\<forall>s \<in> set (sager env'). sag_ok fil s"
proof -
  from step obtain k where key: "item_key (read_row r) ''notat_id'' = Inr k"
    by (auto simp: notat_step_def split: sum.splits)
  let ?n = "add_filListe (fs Notat) k (read_row r)"
  from plain have nofl: "dict_get (read_row r) ''filListe'' = None"
    by (simp add: dict_get_None_iff read_row_keys)
  have ok: "files_ok fil Notat ''notat_id'' ?n"
    by (rule files_ok_add_filListe [OF idx key _ nofl]) simp
  from step key obtain nr where "append_to_sag env nr ''notatListe'' ?n = Inr env'"
    by (auto simp: notat_step_def Let_def split: sum.splits)
  from append_to_sag_Inr [OF this] obtain ps out where
    r: "append_to_obj (sager env) (index_mapping_sager env) nr ''notatListe'' ?n
          = Inr (ps, index_mapping_sager env, out)"
    and e: "sager env' = ps" by auto
  from append_to_obj_preserves [OF r inv] ok e show ?thesis
    by (simp add: sag_ok_attach_notat)
qed

lemma sag_ok_read_row: "''filListe'' \<notin> fst ` set r \<Longrightarrow> sag_ok fil (read_row r)"
  by (simp add: sag_ok_def children_read_row dict_get_None_iff read_row_keys)

lemma sag_pass_dokumenter:
  "for_each sag_step rows env = Inr env' \<Longrightarrow> dokumenter env' = dokumenter env"
  by (rule for_each_preserves [where P = "\<lambda>e. dokumenter e = dokumenter env"])
    (auto dest!: sag_step_Inr)

lemma join_tables_sag_ok:
  assumes j: "join_tables fil sag dokumentcdw notat = Inr env"
    and plain: "\<forall>row \<in> set sag \<union> set dokumentcdw \<union> set notat. ''filListe'' \<notin> fst ` set row"
  shows "\<forall>s \<in> set (sager env). sag_ok fil s"
proof -
  from j obtain fs e2 e3 e4 where
    p1: "for_each fil_step (map read_row fil) no_files = Inr fs"
    and p2: "for_each sag_step (map read_row sag) start_env = Inr e2"
    and p3: "for_each (dokumentcdw_step fs) (map read_row dokumentcdw) e2 = Inr e3"
    and p4: "for_each dokument_to_sag (dokumenter e3) e3 = Inr e4"
    and p5: "for_each (notat_step fs) (map read_row notat) e4 = Inr env"
    by (auto simp: join_tables_def split: sum.splits)
  note idx = fil_index [OF p1]
  from sag_pass [OF p2] have s2: "sager e2 = map read_row sag"
    by (simp add: start_env_def)
  from sag_pass_dokumenter [OF p2] have d2: "dokumenter e2 = []"
    by (simp add: start_env_def)
  have i2: "\<forall>s \<in> set (sager e2). sag_ok fil s"
    using plain by (auto simp: s2 intro: sag_ok_read_row)
  have d3: "\<forall>d \<in> set (dokumenter e3). dokument_ok fil d"
  proof (rule for_each_preserves [OF p3, where P = "\<lambda>e. \<forall>d \<in> set (dokumenter e). dokument_ok fil d"])
    show "\<forall>d \<in> set (dokumenter e2). dokument_ok fil d" by (simp add: d2)
  next
    fix s x s1
    assume inv: "\<forall>d \<in> set (dokumenter s). dokument_ok fil d"
      and x: "x \<in> set (map read_row dokumentcdw)" and step: "dokumentcdw_step fs s x = Inr s1"
    from x obtain r where r: "r \<in> set dokumentcdw" "x = read_row r" by auto
    with plain have "''filListe'' \<notin> fst ` set r" by blast
    from dokumentcdw_step_ok [OF idx step [unfolded r(2)] inv this]
    show "\<forall>d \<in> set (dokumenter s1). dokument_ok fil d" .
  qed
  have s3: "sager e3 = sager e2"
    by (rule for_each_preserves [OF p3, where P = "\<lambda>e. sager e = sager e2"])
      (auto dest: dokumentcdw_step_sager)
  have i4: "\<forall>s \<in> set (sager e4). sag_ok fil s"
  proof (rule for_each_preserves [OF p4, where P = "\<lambda>e. \<forall>s \<in> set (sager e). sag_ok fil s"])
    show "\<forall>s \<in> set (sager e3). sag_ok fil s" using i2 s3 by simp
  next
    fix s x s1
    assume "\<forall>s \<in> set (sager s). sag_ok fil s" "x \<in> set (dokumenter e3)"
      "dokument_to_sag s x = Inr s1"
    with d3 show "\<forall>s \<in> set (sager s1). sag_ok fil s"
      using dokument_to_sag_ok by blast
  qed
  show ?thesis
  proof (rule for_each_preserves [OF p5, where P = "\<lambda>e. \<forall>s \<in> set (sager e). sag_ok fil s"])
    show "\<forall>s \<in> set (sager e4). sag_ok fil s" by (rule i4)
  next
    fix s x s1
    assume inv: "\<forall>s \<in> set (sager s). sag_ok fil s"
      and x: "x \<in> set (map read_row notat)" and step: "notat_step fs s x = Inr s1"
    from x obtain r where r: "r \<in> set notat" "x = read_row r" by auto
    with plain have "''filListe'' \<notin> fst ` set r" by blast
    from notat_step_ok [OF idx step [unfolded r(2)] inv this]
    show "\<forall>s \<in> set (sager s1). sag_ok fil s" .
  qed
qed



text \<open>
  C5, as stated, fails: notat.csv has a column named filListe, and the note, to which no
  row of fil.csv belongs, comes out with a field of that name.
\<close>

theorem filListe_column_passes_through:
  "cirius \<lparr>fil_csv = Some [],
      sag_csv = Some [[(''SagsNr'', Some ''s1'')]],
      dokumentcdw_csv = Some [],
      notat_csv = Some
        [[(''notat_id'', Some ''n1''), (''SagsNr'', Some ''s1''), (''filListe'', Some ''x'')]]\<rparr>
   = \<lparr>raised = None, printed = [],
      cirius_json = Some (PList
        [PDict [(''SagsNr'', PStr ''s1''),
           (''notatListe'', PList
              [PDict [(''notat_id'', PStr ''n1''), (''SagsNr'', PStr ''s1''),
                      (''filListe'', PStr ''x'')]])]])\<rparr>"
  by code_simp

text \<open>
  C5, amended. Suppose no row of sag.csv, dokumentcdw.csv or notat.csv has a field named
  filListe. Then in what a run writes, every case is without that field; every document
  of a case, every attachment of a document and every note of a case has the field
  exactly if some row of fil.csv names its kind and its id, holds in it those rows in
  the order of fil.csv, and has the field once.
\<close>

theorem filListe_from_matching_rows:
  assumes "fil_csv folder = Some fil" and "sag_csv folder = Some sag"
    and "dokumentcdw_csv folder = Some dokumentcdw" and "notat_csv folder = Some notat"
    and "\<forall>row \<in> set sag \<union> set dokumentcdw \<union> set notat. ''filListe'' \<notin> fst ` set row"
    and "cirius_json (cirius folder) = Some tree"
  shows "\<exists>cases. tree = PList (map PDict cases) \<and> (\<forall>s \<in> set cases. sag_ok fil s)"
proof -
  from assms(1-4,6) obtain env where
    j: "join_tables fil sag dokumentcdw notat = Inr env" and t: "tree = PList (map PDict (sager env))"
    by (auto simp: cirius_def abort_def split: sum.splits)
  from join_tables_sag_ok [OF j assms(5)] t show ?thesis by blast
qed

theorem filListe_from_matching_rows_witness:
  "cirius_json (cirius \<lparr>fil_csv = Some
        [[(''notes_template_name'', Some ''cdw''), (''notes_template_id'', Some ''a1''),
          (''fil'', Some ''1.msg'')],
         [(''notes_template_name'', Some ''dokument''), (''notes_template_id'', Some ''a1''),
          (''fil'', Some ''2.pdf'')],
         [(''notes_template_name'', Some ''cdw''), (''notes_template_id'', Some ''a1''),
          (''fil'', Some ''3.msg'')]],
      sag_csv = Some [[(''SagsNr'', Some ''s1'')]],
      dokumentcdw_csv = Some
        [[(''dokument_id'', Some ''d1''), (''SagsNr'', Some ''s1''), (''cdw_id'', Some ''a1'')]],
      notat_csv = Some [[(''notat_id'', Some ''n1''), (''SagsNr'', Some ''s1'')]]\<rparr>)
   = Some (PList (map PDict
      [[(''SagsNr'', PStr ''s1''),
        (''dokumentListe'', PList
           [PDict [(''dokument_id'', PStr ''d1''), (''SagsNr'', PStr ''s1''),
              (''cdwListe'', PList
                 [PDict [(''cdw_id'', PStr ''a1''),
                    (''filListe'', PList
                       [PDict [(''notes_template_name'', PStr ''cdw''),
                               (''notes_template_id'', PStr ''a1''), (''fil'', PStr ''1.msg'')],
                        PDict [(''notes_template_name'', PStr ''cdw''),
                               (''notes_template_id'', PStr ''a1''),
                               (''fil'', PStr ''3.msg'')]])]])]]),
        (''notatListe'', PList
           [PDict [(''notat_id'', PStr ''n1''), (''SagsNr'', PStr ''s1'')]])]]))
   \<and> sag_ok
        [[(''notes_template_name'', Some ''cdw''), (''notes_template_id'', Some ''a1''),
          (''fil'', Some ''1.msg'')],
         [(''notes_template_name'', Some ''dokument''), (''notes_template_id'', Some ''a1''),
          (''fil'', Some ''2.pdf'')],
         [(''notes_template_name'', Some ''cdw''), (''notes_template_id'', Some ''a1''),
          (''fil'', Some ''3.msg'')]]
        [(''SagsNr'', PStr ''s1''),
        (''dokumentListe'', PList
           [PDict [(''dokument_id'', PStr ''d1''), (''SagsNr'', PStr ''s1''),
              (''cdwListe'', PList
                 [PDict [(''cdw_id'', PStr ''a1''),
                    (''filListe'', PList
                       [PDict [(''notes_template_name'', PStr ''cdw''),
                               (''notes_template_id'', PStr ''a1''), (''fil'', PStr ''1.msg'')],
                        PDict [(''notes_template_name'', PStr ''cdw''),
                               (''notes_template_id'', PStr ''a1''),
                               (''fil'', PStr ''3.msg'')]])]])]]),
        (''notatListe'', PList
           [PDict [(''notat_id'', PStr ''n1''), (''SagsNr'', PStr ''s1'')]])]"
proof -
  let ?fil = "[[(''notes_template_name'', Some ''cdw''), (''notes_template_id'', Some ''a1''),
          (''fil'', Some ''1.msg'')],
         [(''notes_template_name'', Some ''dokument''), (''notes_template_id'', Some ''a1''),
          (''fil'', Some ''2.pdf'')],
         [(''notes_template_name'', Some ''cdw''), (''notes_template_id'', Some ''a1''),
          (''fil'', Some ''3.msg'')]]"
  let ?sag = "[[(''SagsNr'', Some ''s1'')]]"
  let ?dok = "[[(''dokument_id'', Some ''d1''), (''SagsNr'', Some ''s1''), (''cdw_id'', Some ''a1'')]]"
  let ?notat = "[[(''notat_id'', Some ''n1''), (''SagsNr'', Some ''s1'')]]"
  let ?folder = "\<lparr>fil_csv = Some ?fil, sag_csv = Some ?sag, dokumentcdw_csv = Some ?dok,
      notat_csv = Some ?notat\<rparr>"
  let ?case = "[(''SagsNr'', PStr ''s1''),
        (''dokumentListe'', PList
           [PDict [(''dokument_id'', PStr ''d1''), (''SagsNr'', PStr ''s1''),
              (''cdwListe'', PList
                 [PDict [(''cdw_id'', PStr ''a1''),
                    (''filListe'', PList
                       [PDict [(''notes_template_name'', PStr ''cdw''),
                               (''notes_template_id'', PStr ''a1''), (''fil'', PStr ''1.msg'')],
                        PDict [(''notes_template_name'', PStr ''cdw''),
                               (''notes_template_id'', PStr ''a1''),
                               (''fil'', PStr ''3.msg'')]])]])]]),
        (''notatListe'', PList
           [PDict [(''notat_id'', PStr ''n1''), (''SagsNr'', PStr ''s1'')]])]"
  have run: "cirius_json (cirius ?folder) = Some (PList (map PDict [?case]))"
    by code_simp
  have plain: "\<forall>row \<in> set ?sag \<union> set ?dok \<union> set ?notat. ''filListe'' \<notin> fst ` set row"
    by simp
  from filListe_from_matching_rows [OF _ _ _ _ plain run, of ?fil]
  obtain cases where eq: "PList (map PDict [?case]) = PList (map PDict cases)"
    and ok: "\<forall>s \<in> set cases. sag_ok ?fil s"
    by (simp only: folder.simps) blast
  from eq have "map PDict cases = map PDict [?case]" by (simp only: pyval.inject)
  moreover have "inj PDict" by (simp add: inj_def)
  ultimately have "cases = [?case]" by (simp only: inj_map_eq_map)
  with ok have "sag_ok ?fil ?case" by simp
  with run show ?thesis by (simp only: simp_thms)
qed

section \<open>Children of cases that share a number\<close>

lemma list_index_length: "length xs = length ys \<Longrightarrow> list_index xs i = list_index ys i"
  by (simp add: list_index_def)

lemma list_index_nat: "p < length xs \<Longrightarrow> list_index xs (int p) = Some p"
  by (simp add: list_index_def)

lemma for_each_all:
  "for_each body xs s = Inr s' \<Longrightarrow> x \<in> set xs \<Longrightarrow> \<exists>s1 s2. body s1 x = Inr s2"
proof (induction xs arbitrary: s)
  case Nil
  then show ?case by simp
next
  case (Cons y ys)
  from Cons.prems(1) obtain t where t: "body s y = Inr t" and rest: "for_each body ys t = Inr s'"
    by (auto split: sum.splits)
  show ?case
  proof (cases "x = y")
    case True
    with t show ?thesis by blast
  next
    case False
    with Cons.prems(2) have "x \<in> set ys" by simp
    from Cons.IH [OF rest this] show ?thesis .
  qed
qed

lemma append_to_sag_step:
  assumes "append_to_sag e nr f c = Inr e'"
  shows "index_mapping_sager e' = index_mapping_sager e \<and> length (sager e') = length (sager e) \<and>
     (\<forall>p < length (sager e). sager e' ! p =
        (if Option.bind (index_mapping_sager e nr) (list_index (sager e)) = Some p
         then dict_set (sager e ! p) f (PList (children (sager e ! p) f @ [PDict c]))
         else sager e ! p))"
proof -
  from append_to_sag_Inr [OF assms] obtain ps out where
    r: "append_to_obj (sager e) (index_mapping_sager e) nr f c = Inr (ps, index_mapping_sager e, out)"
    and e': "e' = e\<lparr>sager := ps, stdout := stdout e @ out\<rparr>" by blast
  from append_to_obj_Inr [OF r] consider
    "index_mapping_sager e nr = None" "ps = sager e"
    | i q where "index_mapping_sager e nr = Some i" "list_index (sager e) i = Some q"
        "q < length (sager e)"
        "ps = (sager e)[q := dict_set (sager e ! q) f (PList (children (sager e ! q) f @ [PDict c]))]"
    by auto
  then show ?thesis
  proof cases
    case 1
    then show ?thesis by (simp add: e')
  next
    case 2
    then show ?thesis by (auto simp: e' nth_list_update)
  qed
qed


lemma attach_loop:
  assumes step: "\<And>e x e'. body e x = Inr e' \<Longrightarrow> append_to_sag e (nr_of x) f (obj x) = Inr e'"
    and run: "for_each body xs env = Inr env'"
  shows "index_mapping_sager env' = index_mapping_sager env \<and>
     length (sager env') = length (sager env) \<and>
     (\<forall>p < length (sager env).
        children (sager env' ! p) f =
          children (sager env ! p) f @
          map (\<lambda>x. PDict (obj x))
            (filter (\<lambda>x. Option.bind (index_mapping_sager env (nr_of x))
                             (list_index (sager env)) = Some p) xs) \<and>
        (\<forall>g. g \<noteq> f \<longrightarrow> children (sager env' ! p) g = children (sager env ! p) g) \<and>
        ((\<forall>x \<in> set xs. Option.bind (index_mapping_sager env (nr_of x))
                             (list_index (sager env)) \<noteq> Some p) \<longrightarrow>
           sager env' ! p = sager env ! p))"
  using run
proof (induction xs arbitrary: env)
  case Nil
  then show ?case by simp
next
  case (Cons x xs)
  from Cons.prems obtain e1 where x: "body env x = Inr e1" and rest: "for_each body xs e1 = Inr env'"
    by (auto split: sum.splits)
  define T where "T = (\<lambda>(e::env) y. Option.bind (index_mapping_sager e (nr_of y)) (list_index (sager e)))"
  have Tdef: "Option.bind (index_mapping_sager e (nr_of y)) (list_index (sager e)) = T e y"
    for e y by (simp add: T_def)
  from append_to_sag_step [OF step [OF x]]
  have m1: "index_mapping_sager e1 = index_mapping_sager env"
    and l1: "length (sager e1) = length (sager env)"
    and s1: "\<And>p. p < length (sager env) \<Longrightarrow> sager e1 ! p =
        (if T env x = Some p
         then dict_set (sager env ! p) f (PList (children (sager env ! p) f @ [PDict (obj x)]))
         else sager env ! p)"
    by (simp_all add: Tdef)
  have "list_index (sager e1) = list_index (sager env)"
    by (rule ext) (rule list_index_length [OF l1])
  then have T1: "T e1 y = T env y" for y
    by (simp add: T_def m1)
  from Cons.IH [OF rest]
  have m2: "index_mapping_sager env' = index_mapping_sager e1"
    and l2: "length (sager env') = length (sager e1)"
    and c2: "\<And>p. p < length (sager env) \<Longrightarrow>
        children (sager env' ! p) f =
          children (sager e1 ! p) f @ map (\<lambda>x. PDict (obj x)) (filter (\<lambda>y. T env y = Some p) xs)"
    and o2: "\<And>p g. p < length (sager env) \<Longrightarrow> g \<noteq> f \<Longrightarrow>
        children (sager env' ! p) g = children (sager e1 ! p) g"
    and u2: "\<And>p. p < length (sager env) \<Longrightarrow> (\<forall>y \<in> set xs. T env y \<noteq> Some p) \<Longrightarrow>
        sager env' ! p = sager e1 ! p"
    by (simp_all add: Tdef T1 l1)
  have "children (sager env' ! p) f =
          children (sager env ! p) f @
          map (\<lambda>x. PDict (obj x)) (filter (\<lambda>y. T env y = Some p) (x # xs)) \<and>
        (\<forall>g. g \<noteq> f \<longrightarrow> children (sager env' ! p) g = children (sager env ! p) g) \<and>
        ((\<forall>y \<in> set (x # xs). T env y \<noteq> Some p) \<longrightarrow> sager env' ! p = sager env ! p)"
    if p: "p < length (sager env)" for p
    using c2 [OF p] o2 [OF p] u2 [OF p] s1 [OF p]
    by (auto simp: children_dict_set)
  then show ?case by (simp add: m1 m2 l1 l2 Tdef)
qed

lemma sag_pass_index:
  "for_each sag_step rows env = Inr env' \<Longrightarrow> index_mapping_sager env' nr = Some j \<Longrightarrow>
     index_mapping_sager env nr = Some j \<or>
     (\<exists>p < length rows. j = int (length (sager env) + p) \<and>
        item_key (rows ! p) ''SagsNr'' = Inr nr)"
proof (induction rows arbitrary: env' rule: rev_induct)
  case Nil
  then show ?case by simp
next
  case (snoc x xs)
  from snoc.prems(1) obtain env1 where xs: "for_each sag_step xs env = Inr env1"
    and x: "sag_step env1 x = Inr env'"
    by (auto simp: for_each_append split: sum.splits)
  from sag_pass [OF xs] have s1: "sager env1 = sager env @ xs" by simp
  from sag_step_Inr [OF x] obtain k where k: "item_key x ''SagsNr'' = Inr k"
    and env': "index_mapping_sager env' = (index_mapping_sager env1)(k \<mapsto> int (length (sager env1)))"
    by auto
  show ?case
  proof (cases "nr = k")
    case True
    with snoc.prems(2) env' s1 have "j = int (length (sager env) + length xs)" by simp
    with True k show ?thesis by (auto intro!: exI [of _ "length xs"])
  next
    case False
    with snoc.prems(2) env' have "index_mapping_sager env1 nr = Some j" by simp
    from snoc.IH [OF xs this] show ?thesis
      by (auto simp: nth_append intro: less_SucI)
  qed
qed

lemma dokumentcdw_step_index_sager:
  assumes "dokumentcdw_step fs env row = Inr env'"
  shows "index_mapping_sager env' = index_mapping_sager env"
proof -
  have reg: "index_mapping_sager e1 = index_mapping_sager e"
    if "register_dokument fs e d v = Inr e1" for e e1 d v
    using that by (auto simp: register_dokument_def Let_def split: if_splits option.splits)
  have att: "index_mapping_sager e1 = index_mapping_sager e"
    if "attach_cdw fs e r c = Inr e1" for e e1 r c
    using that
    by (auto simp: attach_cdw_def Let_def split: if_splits option.splits sum.splits
        dest!: append_to_dokument_Inr)
  from assms show ?thesis
    by (auto simp: dokumentcdw_step_def split: prod.splits option.splits sum.splits
        dest!: reg att)
qed

lemma dokument_to_sag_attach:
  "dokument_to_sag e d = Inr e' \<Longrightarrow>
   append_to_sag e (case item_key d ''SagsNr'' of Inl err \<Rightarrow> None | Inr nr \<Rightarrow> nr)
     ''dokumentListe'' d = Inr e'"
  by (auto simp: dokument_to_sag_def split: sum.splits)

lemma item_key_add_filListe:
  "f \<noteq> ''filListe'' \<Longrightarrow> item_key (add_filListe d k obj) f = item_key obj f"
  by (simp add: item_key_def add_filListe_other)

lemma notat_step_attach:
  "notat_step fs e n = Inr e' \<Longrightarrow>
   append_to_sag e (case item_key n ''SagsNr'' of Inl err \<Rightarrow> None | Inr nr \<Rightarrow> nr)
     ''notatListe'' (notat_obj fs n) = Inr e'"
  by (auto simp: notat_step_def notat_obj_def Let_def item_key_add_filListe split: sum.splits)

lemma notat_step_SagsNr:
  "notat_step fs e n = Inr e' \<Longrightarrow> \<exists>nr. item_key n ''SagsNr'' = Inr nr"
  by (auto simp: notat_step_def Let_def item_key_add_filListe split: sum.splits)

lemma dokument_to_sag_SagsNr:
  "dokument_to_sag e d = Inr e' \<Longrightarrow> \<exists>nr. item_key d ''SagsNr'' = Inr nr"
  by (auto simp: dokument_to_sag_def split: sum.splits)



lemma last_case_gets_children:
  assumes sagp: "for_each sag_step (map read_row sag) start_env = Inr e2"
    and j: "join_tables fil sag dokumentcdw notat = Inr env"
    and i: "i < length sag"
    and k: "item_key (read_row (sag ! i)) ''SagsNr'' = Inr k"
    and last: "\<forall>j. i < j \<and> j < length sag \<longrightarrow> item_key (read_row (sag ! j)) ''SagsNr'' \<noteq> Inr k"
  shows "index_mapping_sager env k = Some (int i) \<and>
     (\<forall>i' < i. item_key (read_row (sag ! i')) ''SagsNr'' = Inr k \<longrightarrow>
         sager env ! i' = read_row (sag ! i')) \<and>
     (\<exists>fs e3. for_each fil_step (map read_row fil) no_files = Inr fs \<and>
        for_each (dokumentcdw_step fs) (map read_row dokumentcdw) e2 = Inr e3 \<and>
        children (sager env ! i) ''dokumentListe'' =
          map PDict (filter (\<lambda>d. item_key d ''SagsNr'' = Inr k) (dokumenter e3)) \<and>
        children (sager env ! i) ''notatListe'' =
          map (\<lambda>n. PDict (notat_obj fs n))
            (filter (\<lambda>n. item_key n ''SagsNr'' = Inr k) (map read_row notat)))"
proof -
  from j sagp obtain fs e3 e4 where
    p1: "for_each fil_step (map read_row fil) no_files = Inr fs"
    and p3: "for_each (dokumentcdw_step fs) (map read_row dokumentcdw) e2 = Inr e3"
    and p4: "for_each dokument_to_sag (dokumenter e3) e3 = Inr e4"
    and p5: "for_each (notat_step fs) (map read_row notat) e4 = Inr env"
    by (auto simp: join_tables_def split: sum.splits)
  define m where "m = index_mapping_sager e2"
  define tgt where "tgt = (\<lambda>nr. Option.bind (m nr) (list_index (sager e2)))"
  \<comment> \<open>the state after the pass over sag.csv\<close>
  from sag_pass [OF sagp] have s2: "sager e2 = map read_row sag"
    and idx: "\<And>i k. i < length sag \<Longrightarrow> item_key (map read_row sag ! i) ''SagsNr'' = Inr k \<Longrightarrow>
         (\<forall>j. i < j \<and> j < length sag \<longrightarrow> item_key (map read_row sag ! j) ''SagsNr'' \<noteq> Inr k) \<Longrightarrow>
         index_mapping_sager e2 k = Some (int i)"
    by (auto simp: start_env_def)
  have F1: "m k = Some (int i)"
    unfolding m_def using i k last by (intro idx) auto
  have F2: "\<exists>p < length sag. jj = int p \<and> item_key (read_row (sag ! p)) ''SagsNr'' = Inr nr"
    if "m nr = Some jj" for nr jj
    using sag_pass_index [OF sagp that [unfolded m_def]] by (auto simp: start_env_def)
  have len2: "length (sager e2) = length sag" by (simp add: s2)
  have tgt_row: "item_key (read_row (sag ! p)) ''SagsNr'' = Inr nr \<and> m nr = Some (int p)"
    if "tgt nr = Some p" for nr p
  proof -
    from that obtain jj where jj: "m nr = Some jj" "list_index (sager e2) jj = Some p"
      by (auto simp: tgt_def Option.bind_eq_Some_conv)
    from F2 [OF jj(1)] obtain q where q: "q < length sag" "jj = int q"
      "item_key (read_row (sag ! q)) ''SagsNr'' = Inr nr" by blast
    from jj(2) q(1,2) have "p = q" by (simp add: list_index_nat len2)
    with q jj show ?thesis by simp
  qed
  have tgt_i: "tgt nr = Some i \<longleftrightarrow> nr = k" for nr
  proof
    assume "tgt nr = Some i"
    from tgt_row [OF this] k show "nr = k" by simp
  next
    assume "nr = k"
    with F1 i show "tgt nr = Some i" by (simp add: tgt_def list_index_nat len2)
  qed
  have tgt_earlier: "tgt nr \<noteq> Some i'"
    if "i' < i" "item_key (read_row (sag ! i')) ''SagsNr'' = Inr k" for nr i'
  proof
    assume "tgt nr = Some i'"
    from tgt_row [OF this] that(2) have "m k = Some (int i')" by simp
    with F1 that(1) show False by simp
  qed
  \<comment> \<open>the later passes keep the index and the length of the case list\<close>
  have s3: "sager e3 = sager e2"
    by (rule for_each_preserves [OF p3, where P = "\<lambda>e. sager e = sager e2"])
      (auto dest: dokumentcdw_step_sager)
  have m3: "index_mapping_sager e3 = m"
    by (rule for_each_preserves [OF p3, where P = "\<lambda>e. index_mapping_sager e = m"])
      (auto simp: m_def dest: dokumentcdw_step_index_sager)
  have T3: "Option.bind (index_mapping_sager e3 nr) (list_index (sager e3)) = tgt nr" for nr
    by (simp add: tgt_def m3 s3)
  note L4 = attach_loop [of dokument_to_sag
      "\<lambda>d. case item_key d ''SagsNr'' of Inl err \<Rightarrow> None | Inr nr \<Rightarrow> nr"
      "''dokumentListe''" "\<lambda>d. d", OF dokument_to_sag_attach p4, unfolded T3]
  from L4 have m4: "index_mapping_sager e4 = m" and len4: "length (sager e4) = length sag"
    by (simp_all add: m3 s3 len2)
  have "list_index (sager e4) = list_index (sager e2)"
    by (rule ext) (rule list_index_length, simp add: len4 len2)
  then have T4: "Option.bind (index_mapping_sager e4 nr) (list_index (sager e4)) = tgt nr" for nr
    by (simp add: tgt_def m4)
  note L5 = attach_loop [of "notat_step fs"
      "\<lambda>n. case item_key n ''SagsNr'' of Inl err \<Rightarrow> None | Inr nr \<Rightarrow> nr"
      "''notatListe''" "notat_obj fs", OF notat_step_attach p5, unfolded T4]
  from L5 have m5: "index_mapping_sager env = m" by (simp add: m4)
  \<comment> \<open>the children of the last case with the number\<close>
  have row: "sager e3 ! p = read_row (sag ! p)" if "p < length sag" for p
    using that by (simp add: s3 s2)
  have dok_filter: "filter (\<lambda>d. tgt (case item_key d ''SagsNr'' of Inl err \<Rightarrow> None | Inr nr \<Rightarrow> nr) = Some i)
        (dokumenter e3) = filter (\<lambda>d. item_key d ''SagsNr'' = Inr k) (dokumenter e3)"
  proof (rule filter_cong [OF refl])
    fix d assume "d \<in> set (dokumenter e3)"
    from for_each_all [OF p4 this] obtain nr where "item_key d ''SagsNr'' = Inr nr"
      using dokument_to_sag_SagsNr by blast
    then show "(tgt (case item_key d ''SagsNr'' of Inl err \<Rightarrow> None | Inr nr \<Rightarrow> nr) = Some i)
        = (item_key d ''SagsNr'' = Inr k)"
      by (simp add: tgt_i)
  qed
  have notat_filter: "filter (\<lambda>n. tgt (case item_key n ''SagsNr'' of Inl err \<Rightarrow> None | Inr nr \<Rightarrow> nr) = Some i)
        (map read_row notat) = filter (\<lambda>n. item_key n ''SagsNr'' = Inr k) (map read_row notat)"
  proof (rule filter_cong [OF refl])
    fix n assume "n \<in> set (map read_row notat)"
    from for_each_all [OF p5 this] obtain nr where "item_key n ''SagsNr'' = Inr nr"
      using notat_step_SagsNr by blast
    then show "(tgt (case item_key n ''SagsNr'' of Inl err \<Rightarrow> None | Inr nr \<Rightarrow> nr) = Some i)
        = (item_key n ''SagsNr'' = Inr k)"
      by (simp add: tgt_i)
  qed
  from i have i3: "i < length (sager e3)" and i4: "i < length (sager e4)"
    by (simp_all add: s3 len2 len4)
  have d4: "children (sager e4 ! i) ''dokumentListe'' =
      map PDict (filter (\<lambda>d. item_key d ''SagsNr'' = Inr k) (dokumenter e3))"
    using L4 i3 by (simp add: dok_filter row [OF i] children_read_row)
  have n4: "children (sager e4 ! i) ''notatListe'' = []"
    using L4 i3 by (simp add: row [OF i] children_read_row)
  have d5: "children (sager env ! i) ''dokumentListe'' = children (sager e4 ! i) ''dokumentListe''"
    using L5 i4 by simp
  have n5: "children (sager env ! i) ''notatListe'' =
      map (\<lambda>n. PDict (notat_obj fs n))
        (filter (\<lambda>n. item_key n ''SagsNr'' = Inr k) (map read_row notat))"
    using L5 i4 by (simp add: notat_filter n4)
  \<comment> \<open>an earlier case with the number is left as it was read\<close>
  have earlier: "sager env ! i' = read_row (sag ! i')"
    if "i' < i" "item_key (read_row (sag ! i')) ''SagsNr'' = Inr k" for i'
  proof -
    from that(1) i have lt: "i' < length sag" by simp
    then have l3: "i' < length (sager e3)" and l4: "i' < length (sager e4)"
      by (simp_all add: s3 len2 len4)
    have "sager e4 ! i' = sager e3 ! i'"
      using L4 l3 tgt_earlier [OF that] by simp
    moreover have "sager env ! i' = sager e4 ! i'"
      using L5 l4 tgt_earlier [OF that] by simp
    ultimately show ?thesis by (simp add: row [OF lt])
  qed
  from F1 m5 earlier p1 p3 d4 d5 n5 show ?thesis by auto
qed


text \<open>
  C2, as stated, fails: two cases share the number s1, and the note that refers to s1 is
  attached to the second of them, not to the first.
\<close>

theorem duplicate_SagsNr_first_row_loses:
  "cirius \<lparr>fil_csv = Some [],
      sag_csv = Some [[(''SagsNr'', Some ''s1''), (''Titel'', Some ''first'')],
                      [(''SagsNr'', Some ''s1''), (''Titel'', Some ''second'')]],
      dokumentcdw_csv = Some [],
      notat_csv = Some [[(''notat_id'', Some ''n1''), (''SagsNr'', Some ''s1'')]]\<rparr>
   = \<lparr>raised = None, printed = [],
      cirius_json = Some (PList
        [PDict [(''SagsNr'', PStr ''s1''), (''Titel'', PStr ''first'')],
         PDict [(''SagsNr'', PStr ''s1''), (''Titel'', PStr ''second''),
                (''notatListe'', PList [PDict [(''notat_id'', PStr ''n1''), (''SagsNr'', PStr ''s1'')]])]])\<rparr>"
  by code_simp

text \<open>
  C2, amended. After the pass over sag.csv the case list is the table, row by row, and
  the index maps a case number to the position of the last row that carries it: a later
  row with the same number overwrites the entry of an earlier one. That position is
  where the helper finds the parent. So in every run that writes its output, the case at
  that position holds in its \<^verbatim>\<open>dokumentListe\<close> exactly the documents with the number,
  in the order of \<open>dokumenter\<close>, and in its \<^verbatim>\<open>notatListe\<close> exactly the notes with the
  number, in the order of notat.csv; and every earlier case with the same number is
  written as it was read, without a child.
\<close>

theorem index_mapping_sager_last_wins:
  assumes "for_each sag_step (map read_row sag) start_env = Inr e2"
    and "i < length sag"
    and "item_key (read_row (sag ! i)) ''SagsNr'' = Inr k"
    and "\<forall>j. i < j \<and> j < length sag \<longrightarrow> item_key (read_row (sag ! j)) ''SagsNr'' \<noteq> Inr k"
  shows "sager e2 = map read_row sag \<and> index_mapping_sager e2 k = Some (int i) \<and>
     list_index (sager e2) (int i) = Some i \<and>
     (\<forall>folder fil dokumentcdw notat cases.
        fil_csv folder = Some fil \<and> sag_csv folder = Some sag \<and>
        dokumentcdw_csv folder = Some dokumentcdw \<and> notat_csv folder = Some notat \<and>
        cirius_json (cirius folder) = Some (PList (map PDict cases)) \<longrightarrow>
          (\<forall>i' < i. item_key (read_row (sag ! i')) ''SagsNr'' = Inr k \<longrightarrow>
              cases ! i' = read_row (sag ! i')) \<and>
          (\<exists>fs e3. for_each fil_step (map read_row fil) no_files = Inr fs \<and>
             for_each (dokumentcdw_step fs) (map read_row dokumentcdw) e2 = Inr e3 \<and>
             children (cases ! i) ''dokumentListe'' =
               map PDict (filter (\<lambda>d. item_key d ''SagsNr'' = Inr k) (dokumenter e3)) \<and>
             children (cases ! i) ''notatListe'' =
               map (\<lambda>n. PDict (notat_obj fs n))
                 (filter (\<lambda>n. item_key n ''SagsNr'' = Inr k) (map read_row notat))))"
proof -
  from sag_pass [OF assms(1)] have a: "sager e2 = map read_row sag"
    and b: "\<And>i k. i < length sag \<Longrightarrow> item_key (map read_row sag ! i) ''SagsNr'' = Inr k \<Longrightarrow>
         (\<forall>j. i < j \<and> j < length sag \<longrightarrow> item_key (map read_row sag ! j) ''SagsNr'' \<noteq> Inr k) \<Longrightarrow>
         index_mapping_sager e2 k = Some (int i)"
    by (auto simp: start_env_def)
  from assms(2-4) have c: "index_mapping_sager e2 k = Some (int i)"
    by (intro b) auto
  have run: "(\<forall>i' < i. item_key (read_row (sag ! i')) ''SagsNr'' = Inr k \<longrightarrow>
              cases ! i' = read_row (sag ! i')) \<and>
          (\<exists>fs e3. for_each fil_step (map read_row fil) no_files = Inr fs \<and>
             for_each (dokumentcdw_step fs) (map read_row dokumentcdw) e2 = Inr e3 \<and>
             children (cases ! i) ''dokumentListe'' =
               map PDict (filter (\<lambda>d. item_key d ''SagsNr'' = Inr k) (dokumenter e3)) \<and>
             children (cases ! i) ''notatListe'' =
               map (\<lambda>n. PDict (notat_obj fs n))
                 (filter (\<lambda>n. item_key n ''SagsNr'' = Inr k) (map read_row notat)))"
    if tables: "fil_csv folder = Some fil" "sag_csv folder = Some sag"
      "dokumentcdw_csv folder = Some dokumentcdw" "notat_csv folder = Some notat"
      and out: "cirius_json (cirius folder) = Some (PList (map PDict cases))"
    for folder fil dokumentcdw notat cases
  proof -
    from tables out obtain env where j: "join_tables fil sag dokumentcdw notat = Inr env"
      and t: "map PDict cases = map PDict (sager env)"
      by (auto simp: cirius_def abort_def split: sum.splits)
    have "inj PDict" by (simp add: inj_def)
    with t have "cases = sager env" by (simp only: inj_map_eq_map)
    with last_case_gets_children [OF assms(1) j assms(2-4)] show ?thesis by simp
  qed
  have l: "list_index (sager e2) (int i) = Some i"
    using a assms(2) by (simp add: list_index_def)
  show ?thesis
  proof (intro conjI allI impI)
    show "sager e2 = map read_row sag" by (rule a)
    show "index_mapping_sager e2 k = Some (int i)" by (rule c)
    show "list_index (sager e2) (int i) = Some i" by (rule l)
  next
    fix folder fil dokumentcdw notat cases i'
    assume h: "fil_csv folder = Some fil \<and> sag_csv folder = Some sag \<and>
        dokumentcdw_csv folder = Some dokumentcdw \<and> notat_csv folder = Some notat \<and>
        cirius_json (cirius folder) = Some (PList (map PDict cases))"
      and "i' < i" "item_key (read_row (sag ! i')) ''SagsNr'' = Inr k"
    with run [of folder fil dokumentcdw notat cases]
    show "cases ! i' = read_row (sag ! i')" by blast
  next
    fix folder fil dokumentcdw notat cases
    assume h: "fil_csv folder = Some fil \<and> sag_csv folder = Some sag \<and>
        dokumentcdw_csv folder = Some dokumentcdw \<and> notat_csv folder = Some notat \<and>
        cirius_json (cirius folder) = Some (PList (map PDict cases))"
    with run [of folder fil dokumentcdw notat cases]
    show "\<exists>fs e3. for_each fil_step (map read_row fil) no_files = Inr fs \<and>
             for_each (dokumentcdw_step fs) (map read_row dokumentcdw) e2 = Inr e3 \<and>
             children (cases ! i) ''dokumentListe'' =
               map PDict (filter (\<lambda>d. item_key d ''SagsNr'' = Inr k) (dokumenter e3)) \<and>
             children (cases ! i) ''notatListe'' =
               map (\<lambda>n. PDict (notat_obj fs n))
                 (filter (\<lambda>n. item_key n ''SagsNr'' = Inr k) (map read_row notat))"
      by blast
  qed
qed


theorem index_mapping_sager_last_wins_witness:
  "for_each sag_step (map read_row [[(''SagsNr'', Some ''s1''), (''Titel'', Some ''first'')],
                      [(''SagsNr'', Some ''s1''), (''Titel'', Some ''second'')]]) start_env
     = Inr \<lparr>sager = [[(''SagsNr'', PStr ''s1''), (''Titel'', PStr ''first'')],
                     [(''SagsNr'', PStr ''s1''), (''Titel'', PStr ''second'')]],
            index_mapping_sager = [Some ''s1'' \<mapsto> 1], dokumenter = [],
            index_mapping_dokumenter = Map.empty, stdout = []\<rparr> \<and>
   cirius_json (cirius \<lparr>fil_csv = Some [],
      sag_csv = Some [[(''SagsNr'', Some ''s1''), (''Titel'', Some ''first'')],
                      [(''SagsNr'', Some ''s1''), (''Titel'', Some ''second'')]],
      dokumentcdw_csv = Some
        [[(''dokument_id'', Some ''d1''), (''SagsNr'', Some ''s1''), (''cdw_id'', None)]],
      notat_csv = Some [[(''notat_id'', Some ''n1''), (''SagsNr'', Some ''s1'')]]\<rparr>)
     = Some (PList (map PDict
        [[(''SagsNr'', PStr ''s1''), (''Titel'', PStr ''first'')],
         [(''SagsNr'', PStr ''s1''), (''Titel'', PStr ''second''),
          (''dokumentListe'', PList
             [PDict [(''dokument_id'', PStr ''d1''), (''SagsNr'', PStr ''s1'')]]),
          (''notatListe'', PList
             [PDict [(''notat_id'', PStr ''n1''), (''SagsNr'', PStr ''s1'')]])]])) \<and>
   [[(''SagsNr'', PStr ''s1''), (''Titel'', PStr ''first'')],
    [(''SagsNr'', PStr ''s1''), (''Titel'', PStr ''second''),
     (''dokumentListe'', PList
        [PDict [(''dokument_id'', PStr ''d1''), (''SagsNr'', PStr ''s1'')]]),
     (''notatListe'', PList
        [PDict [(''notat_id'', PStr ''n1''), (''SagsNr'', PStr ''s1'')]])]] ! 0
     = read_row [(''SagsNr'', Some ''s1''), (''Titel'', Some ''first'')]"
proof -
  let ?sag = "[[(''SagsNr'', Some ''s1''), (''Titel'', Some ''first'')],
               [(''SagsNr'', Some ''s1''), (''Titel'', Some ''second'')]]"
  let ?e2 = "\<lparr>sager = [[(''SagsNr'', PStr ''s1''), (''Titel'', PStr ''first'')],
                     [(''SagsNr'', PStr ''s1''), (''Titel'', PStr ''second'')]],
            index_mapping_sager = [Some ''s1'' \<mapsto> 1], dokumenter = [],
            index_mapping_dokumenter = Map.empty, stdout = []\<rparr>"
  let ?dok = "[[(''dokument_id'', Some ''d1''), (''SagsNr'', Some ''s1''), (''cdw_id'', None)]]"
  let ?notat = "[[(''notat_id'', Some ''n1''), (''SagsNr'', Some ''s1'')]]"
  let ?folder = "\<lparr>fil_csv = Some [], sag_csv = Some ?sag, dokumentcdw_csv = Some ?dok,
      notat_csv = Some ?notat\<rparr>"
  let ?cases = "[[(''SagsNr'', PStr ''s1''), (''Titel'', PStr ''first'')],
    [(''SagsNr'', PStr ''s1''), (''Titel'', PStr ''second''),
     (''dokumentListe'', PList
        [PDict [(''dokument_id'', PStr ''d1''), (''SagsNr'', PStr ''s1'')]]),
     (''notatListe'', PList
        [PDict [(''notat_id'', PStr ''n1''), (''SagsNr'', PStr ''s1'')]])]]"
  have run: "for_each sag_step (map read_row ?sag) start_env = Inr ?e2"
    by (simp add: run_defs)
  have i: "1 < length ?sag" by simp
  have k: "item_key (read_row (?sag ! 1)) ''SagsNr'' = Inr (Some ''s1'')"
    by (simp add: run_defs)
  have last: "\<forall>j. 1 < j \<and> j < length ?sag \<longrightarrow>
      item_key (read_row (?sag ! j)) ''SagsNr'' \<noteq> Inr (Some ''s1'')"
    by auto
  have out: "cirius_json (cirius ?folder) = Some (PList (map PDict ?cases))"
    by code_simp
  have tables: "fil_csv ?folder = Some [] \<and> sag_csv ?folder = Some ?sag \<and>
      dokumentcdw_csv ?folder = Some ?dok \<and> notat_csv ?folder = Some ?notat \<and>
      cirius_json (cirius ?folder) = Some (PList (map PDict ?cases))"
    using out by simp
  have k0: "item_key (read_row (?sag ! 0)) ''SagsNr'' = Inr (Some ''s1'')"
    by (simp add: run_defs)
  from index_mapping_sager_last_wins [OF run i k last]
  have "\<forall>i' < 1. item_key (read_row (?sag ! i')) ''SagsNr'' = Inr (Some ''s1'') \<longrightarrow>
      ?cases ! i' = read_row (?sag ! i')"
    using tables by blast
  with k0 have "?cases ! 0 = read_row (?sag ! 0)" by blast
  with run out show ?thesis by simp
qed

end
